theory Spec2Isabelle
  imports Main "HOL-Library.Sublist"
begin

section \<open>Errors (package constants)\<close>

text \<open>
  The sentinel errors of package \<open>constants\<close>. A Go \<open>error\<close> value is modelled by how it
  was built: a sentinel, an error handed back by a library outside the repository, or
  \<open>fmt.Errorf("%s: %w", msg, err)\<close>, which carries a message and wraps one error.
\<close>

datatype Constant =
    ErrMissingArgument | ErrFetchKeys | ErrParseKey | ErrNoValidKeys | ErrCreateArchive
  | ErrEncrypt | ErrDecrypt | ErrExtract | ErrOpenFile | ErrParseIdentity

fun Constant_string :: "Constant \<Rightarrow> string" where
  "Constant_string ErrMissingArgument = ''missing required argument''"
| "Constant_string ErrFetchKeys = ''failed to fetch keys''"
| "Constant_string ErrParseKey = ''failed to parse key''"
| "Constant_string ErrNoValidKeys = ''no valid keys found''"
| "Constant_string ErrCreateArchive = ''failed to create archive''"
| "Constant_string ErrEncrypt = ''failed to encrypt''"
| "Constant_string ErrDecrypt = ''failed to decrypt''"
| "Constant_string ErrExtract = ''failed to extract''"
| "Constant_string ErrOpenFile = ''failed to open file''"
| "Constant_string ErrParseIdentity = ''failed to parse identity''"

datatype error = Sentinel Constant | Foreign string | Errorf string error

text \<open>\<open>err.Error()\<close>: the message.\<close>

fun Error :: "error \<Rightarrow> string" where
  "Error (Sentinel c) = Constant_string c"
| "Error (Foreign s) = s"
| "Error (Errorf msg err) = msg @ '': '' @ Error err"

text \<open>\<open>errors.Is(err, c)\<close> for a sentinel \<open>c\<close>: follows the chain of wrapped errors.\<close>

fun errors_Is :: "error \<Rightarrow> Constant \<Rightarrow> bool" where
  "errors_Is (Sentinel c') c = (c' = c)"
| "errors_Is (Foreign s) c = False"
| "errors_Is (Errorf msg err) c = errors_Is err c"

text \<open>The operands of \<open>fmt.Sprint\<close> that the program passes: strings and integers.\<close>

datatype arg = AString string | AInt int

fun digit_char :: "nat \<Rightarrow> char" where
  "digit_char n = char_of (48 + n)"

fun string_of_nat :: "nat \<Rightarrow> string" where
  "string_of_nat n = (if n < 10 then [digit_char n] else string_of_nat (n div 10) @ [digit_char (n mod 10)])"

declare string_of_nat.simps [simp del]

fun string_of_int :: "int \<Rightarrow> string" where
  "string_of_int i = (if i < 0 then CHR ''-'' # string_of_nat (nat (- i)) else string_of_nat (nat i))"

fun arg_string :: "arg \<Rightarrow> string" where
  "arg_string (AString s) = s"
| "arg_string (AInt i) = string_of_int i"

fun is_AString :: "arg \<Rightarrow> bool" where
  "is_AString (AString s) = True"
| "is_AString (AInt i) = False"

text \<open>\<open>fmt.Sprint\<close>: a space goes between two operands when neither is a string.\<close>

fun Sprint :: "arg list \<Rightarrow> string" where
  "Sprint [] = []"
| "Sprint [a] = arg_string a"
| "Sprint (a # b # rest) =
     arg_string a @ (if \<not> is_AString a \<and> \<not> is_AString b then '' '' else []) @ Sprint (b # rest)"

text \<open>
  \<open>Constant.Wrap(err, args...)\<close>. With a non-nil \<open>err\<close> the result wraps \<open>err\<close>; with a
  nil \<open>err\<close> it wraps the sentinel itself.
\<close>

definition Wrap :: "Constant \<Rightarrow> error option \<Rightarrow> arg list \<Rightarrow> error" where
  "Wrap e err args =
     (let msg = Constant_string e @ (if length args > 0 then '': '' @ Sprint args else [])
      in case err of
           Some x \<Rightarrow> Errorf msg x
         | None \<Rightarrow> Errorf msg (Sentinel e))"

section \<open>Key resolver (package ghkeys)\<close>

text \<open>
  The collaborators of \<open>FetchRecipients\<close> that live outside the repository are parameters:
  \<^item> \<open>NewRequest url\<close> is the error of \<open>http.NewRequestWithContext\<close>, if any;
  \<^item> \<open>Do url\<close> is what \<open>client.Do\<close> returns for the request;
  \<^item> \<open>Body\<close> of a response is what \<open>io.ReadAll(resp.Body)\<close> returns;
  \<^item> \<open>ParseRecipient\<close> stands for \<open>agessh.ParseRecipient\<close>.
\<close>

record response =
  StatusCode :: int
  Body :: "error + string"

record HTTPClient =
  NewRequest :: "string \<Rightarrow> error option"
  Do :: "string \<Rightarrow> error + response"

definition StatusOK :: int where
  "StatusOK = 200"

definition LF :: char where
  "LF = CHR 0x0A"

definition CR :: char where
  "CR = CHR 0x0D"

text \<open>
  \<open>strings.TrimSpace\<close> on the six ASCII white-space bytes. Bytes from \<open>0x80\<close> on are kept:
  the Unicode white space that Go also trims (encoded in several bytes) is not modelled.
\<close>

definition isSpace :: "char \<Rightarrow> bool" where
  "isSpace c = (c = CHR 0x09 \<or> c = CHR 0x0A \<or> c = CHR 0x0B \<or> c = CHR 0x0C \<or> c = CHR 0x0D \<or> c = CHR 0x20)"

definition TrimSpace :: "string \<Rightarrow> string" where
  "TrimSpace s = dropWhile isSpace (rev (dropWhile isSpace (rev s)))"

text \<open>
  \<open>bufio.Scanner\<close> with the default split function \<open>bufio.ScanLines\<close> and the default
  buffer: \<open>ScanLines s\<close> is the list of tokens that successive calls of \<open>Scan()\<close> return
  before \<open>Scan()\<close> returns false. A token is a line without its newline and without one
  trailing carriage return; an empty last line is no token. The buffer grows up to
  \<open>MaxScanTokenSize\<close> bytes: when it is full and holds no newline, \<open>Scan()\<close> returns false
  for good (the error \<open>ErrTooLong\<close> stays in \<open>scanner.Err()\<close>).
\<close>

definition MaxScanTokenSize :: nat where
  "MaxScanTokenSize = 64 * 1024"

definition dropCR :: "string \<Rightarrow> string" where
  "dropCR data = (if data \<noteq> [] \<and> last data = CR then butlast data else data)"

function ScanLines :: "string \<Rightarrow> string list" where
  "ScanLines s =
     (if s = [] then []
      else let line = takeWhile (\<lambda>c. c \<noteq> LF) s;
               rest = dropWhile (\<lambda>c. c \<noteq> LF) s
           in if length line \<ge> MaxScanTokenSize then []
              else dropCR line # ScanLines (drop 1 rest))"
  by pat_completeness auto
termination
proof (relation "measure length")
  show "wf (measure length)" by simp
next
  fix s :: string and line rest
  assume "s \<noteq> []" and "rest = dropWhile (\<lambda>c. c \<noteq> LF) s"
  then have "length (drop 1 rest) < length s"
    using length_dropWhile_le [of "\<lambda>c. c \<noteq> LF" s]
    by (cases "dropWhile (\<lambda>c. c \<noteq> LF) s") auto
  then show "(drop 1 rest, s) \<in> measure length" by simp
qed

declare ScanLines.simps [simp del]

text \<open>
  The loop of \<open>FetchRecipients\<close> over the scanned tokens. The state is the log (the keys
  of the warnings, each cut to 40 bytes) and the recipients appended so far.
\<close>

fun scan_loop :: "(string \<Rightarrow> error + 'r) \<Rightarrow> string list \<Rightarrow> string list \<times> 'r list \<Rightarrow> string list \<times> 'r list" where
  "scan_loop ParseRecipient [] (log, recipients) = (log, recipients)"
| "scan_loop ParseRecipient (text # texts) (log, recipients) =
     (let line = TrimSpace text
      in if line = [] then scan_loop ParseRecipient texts (log, recipients)
         else case ParseRecipient line of
                Inl err \<Rightarrow> scan_loop ParseRecipient texts (log @ [take (min 40 (length line)) line], recipients)
              | Inr rcpt \<Rightarrow> scan_loop ParseRecipient texts (log, recipients @ [rcpt]))"

text \<open>\<open>fmt.Sprintf("https://github.com/%s.keys", username)\<close>\<close>

definition keys_url :: "string \<Rightarrow> string" where
  "keys_url username = ''https://github.com/'' @ username @ ''.keys''"

text \<open>\<open>FetchRecipients\<close> returns the log it wrote and its result.\<close>

definition FetchRecipients ::
  "(string \<Rightarrow> error + 'r) \<Rightarrow> HTTPClient \<Rightarrow> string \<Rightarrow> string list \<times> (error + 'r list)" where
  "FetchRecipients ParseRecipient client username =
     (let url = keys_url username
      in case NewRequest client url of
           Some err \<Rightarrow> ([], Inl (Wrap ErrFetchKeys (Some err) []))
         | None \<Rightarrow>
          (case Do client url of
             Inl err \<Rightarrow> ([], Inl (Wrap ErrFetchKeys (Some err) []))
           | Inr resp \<Rightarrow>
               if StatusCode resp \<noteq> StatusOK
               then ([], Inl (Wrap ErrFetchKeys None [AString ''HTTP'', AInt (StatusCode resp)]))
               else (case Body resp of
                       Inl err \<Rightarrow> ([], Inl (Wrap ErrFetchKeys (Some err) []))
                     | Inr body \<Rightarrow>
                         (let (log, recipients) = scan_loop ParseRecipient (ScanLines body) ([], [])
                          in if length recipients = 0
                             then (log, Inl (Wrap ErrNoValidKeys None [AString username]))
                             else (log, Inr recipients)))))"

text \<open>The recipient that one scanned token contributes, if any.\<close>

definition parsed :: "(string \<Rightarrow> error + 'r) \<Rightarrow> string \<Rightarrow> 'r option" where
  "parsed P t = (if TrimSpace t = [] then None
                 else case P (TrimSpace t) of Inl err \<Rightarrow> None | Inr rcpt \<Rightarrow> Some rcpt)"

text \<open>
  The lines of a key listing as the claims speak of them: the pieces between newlines,
  of any length.
\<close>

function listing_lines :: "string \<Rightarrow> string list" where
  "listing_lines s =
     (if s = [] then []
      else takeWhile (\<lambda>c. c \<noteq> LF) s # listing_lines (drop 1 (dropWhile (\<lambda>c. c \<noteq> LF) s)))"
  by pat_completeness auto
termination
proof (relation "measure length")
  show "wf (measure length)" by simp
next
  fix s :: string
  assume "s \<noteq> []"
  then have "0 < length s" by simp
  moreover have "length (dropWhile (\<lambda>c. c \<noteq> LF) s) \<le> length s"
    by (rule length_dropWhile_le)
  ultimately have "length (drop 1 (dropWhile (\<lambda>c. c \<noteq> LF) s)) < length s"
    unfolding length_drop by linarith
  then show "(drop 1 (dropWhile (\<lambda>c. c \<noteq> LF) s), s) \<in> measure length" by simp
qed

declare listing_lines.simps [simp del]

section \<open>Encryption envelope (package crypt)\<close>

text \<open>
  Keys are symbolic: a key pair is named by its algorithm and its public key material.
  \<open>public_of\<close> gives the recipient that belongs to an identity.
\<close>

datatype keytype = RSA | Ed25519

datatype Recipient = Recipient keytype string

datatype Identity = Identity keytype string

fun public_of :: "Identity \<Rightarrow> Recipient" where
  "public_of (Identity t k) = Recipient t k"

text \<open>
  What an encrypted stream can be, as \<open>age.Decrypt\<close> sees it: bytes whose header does not
  parse, or an envelope with one wrapped-key record per recipient and a payload whose
  chunks all authenticate (\<open>True\<close>) or not.
\<close>

datatype 'a encrypted = Malformed | Envelope "Recipient list" 'a bool

text \<open>
  An \<open>io.Reader\<close> delivers its content and then \<open>io.EOF\<close> or an error. An \<open>io.Writer\<close>
  accepts every write, or fails with an error from some phase of \<open>Encrypt\<close> on.
\<close>

record 'a Reader =
  content :: 'a
  read_error :: "error option"

datatype phase = AtHeader | AtCopy | AtClose

type_synonym Writer = "(phase \<times> error) option"

fun write_fails :: "Writer \<Rightarrow> phase \<Rightarrow> error option" where
  "write_fails None p = None"
| "write_fails (Some (AtHeader, err)) p = Some err"
| "write_fails (Some (AtCopy, err)) p = (if p = AtHeader then None else Some err)"
| "write_fails (Some (AtClose, err)) p = (if p = AtClose then Some err else None)"

text \<open>
  Modelled from the spec: \<open>age.Encrypt\<close> of the library \<open>filippo.io/age\<close>, which is not part
  of the repository (section 4.3, Encrypt). It fails if the recipient set is empty;
  otherwise it writes the header with one wrapped-key record per recipient.
\<close>

definition age_Encrypt :: "Writer \<Rightarrow> Recipient list \<Rightarrow> error + Recipient list" where
  "age_Encrypt w recipients =
     (if recipients = [] then Inl (Foreign ''no recipients specified'')
      else case write_fails w AtHeader of
             Some err \<Rightarrow> Inl (Errorf ''failed to write header'' err)
           | None \<Rightarrow> Inr recipients)"

text \<open>
  Modelled from the spec: \<open>age.Decrypt\<close> of the library \<open>filippo.io/age\<close> (section 4.3,
  Decrypt). The identities are tried in the order supplied, each against every
  wrapped-key record; a record unwraps under an identity exactly when it was wrapped for
  the identity's public key. If no identity unwraps any record, it fails.
\<close>

definition unwraps :: "Identity \<Rightarrow> Recipient list \<Rightarrow> bool" where
  "unwraps i stanzas = (\<exists>s \<in> set stanzas. s = public_of i)"

definition age_Decrypt :: "'a encrypted \<Rightarrow> Identity list \<Rightarrow> error + 'a Reader" where
  "age_Decrypt r identities =
     (if identities = [] then Inl (Foreign ''no identities specified'')
      else case r of
             Malformed \<Rightarrow> Inl (Foreign ''failed to read header'')
           | Envelope stanzas payload authentic \<Rightarrow>
               if \<exists>i \<in> set identities. unwraps i stanzas
               then Inr \<lparr>content = payload,
                         read_error = (if authentic then None else Some (Foreign ''failed to decrypt and authenticate payload chunk''))\<rparr>
               else Inl (Foreign ''no identity matched any of the recipients''))"

text \<open>
  \<open>Encrypt(w, r, recipients)\<close>. \<open>Inr\<close> holds what \<open>w\<close> has received when \<open>Encrypt\<close> returns
  nil; on an error, what \<open>w\<close> holds is not usable and is left out.
\<close>

definition Encrypt :: "Writer \<Rightarrow> 'a Reader \<Rightarrow> Recipient list \<Rightarrow> error + 'a encrypted" where
  "Encrypt w r recipients =
     (case age_Encrypt w recipients of
        Inl err \<Rightarrow> Inl (Wrap ErrEncrypt (Some err) [])
      | Inr stanzas \<Rightarrow>
          (case (case read_error r of Some err \<Rightarrow> Some err | None \<Rightarrow> write_fails w AtCopy) of
             Some err \<Rightarrow> Inl (Wrap ErrEncrypt (Some err) [])
           | None \<Rightarrow>
               (case write_fails w AtClose of
                  Some err \<Rightarrow> Inl (Wrap ErrEncrypt (Some err) [])
                | None \<Rightarrow> Inr (Envelope stanzas (content r) True))))"

text \<open>
  \<open>Decrypt(w, r, identities)\<close>, with \<open>w\<close> a buffer. \<open>Inr\<close> holds what \<open>w\<close> has received when
  \<open>Decrypt\<close> returns nil.
\<close>

definition Decrypt :: "'a encrypted \<Rightarrow> Identity list \<Rightarrow> error + 'a" where
  "Decrypt r identities =
     (case age_Decrypt r identities of
        Inl err \<Rightarrow> Inl (Wrap ErrDecrypt (Some err) [])
      | Inr dr \<Rightarrow>
          (case read_error dr of
             Some err \<Rightarrow> Inl (Wrap ErrDecrypt (Some err) [])
           | None \<Rightarrow> Inr (content dr)))"

section \<open>Paths (path/filepath on Unix)\<close>

definition Separator :: char where
  "Separator = CHR ''/''"

text \<open>The pieces of a path between separators, empty ones included.\<close>

fun elements :: "string \<Rightarrow> string list" where
  "elements [] = [[]]"
| "elements (c # cs) =
     (if c = Separator then [] # elements cs
      else case elements cs of [] \<Rightarrow> [[c]] | e # es \<Rightarrow> (c # e) # es)"

fun join_sep :: "string list \<Rightarrow> string" where
  "join_sep [] = []"
| "join_sep [e] = e"
| "join_sep (e # es) = e @ [Separator] @ join_sep es"

text \<open>
  One step of \<open>filepath.Clean\<close>; \<open>out\<close> holds the elements kept so far, last first. An
  empty element and \<open>.\<close> are dropped; \<open>..\<close> removes the element before it, is dropped at
  the root, and is kept at the start of a path that is not rooted.
\<close>

definition clean_element :: "bool \<Rightarrow> string list \<Rightarrow> string \<Rightarrow> string list" where
  "clean_element rooted out e =
     (if e = [] \<or> e = ''.'' then out
      else if e = ''..''
           then (if out \<noteq> [] \<and> hd out \<noteq> ''..'' then tl out
                 else if rooted then out else e # out)
           else e # out)"

definition Clean :: "string \<Rightarrow> string" where
  "Clean path =
     (if path = [] then ''.''
      else let rooted = (hd path = Separator);
               out = foldl (clean_element rooted) [] (elements path)
           in if rooted then Separator # join_sep (rev out)
              else if out = [] then ''.'' else join_sep (rev out))"

text \<open>\<open>filepath.Join(a, b)\<close>: leading empty arguments are ignored, the rest is joined and cleaned.\<close>

definition Join :: "string \<Rightarrow> string \<Rightarrow> string" where
  "Join a b =
     (if a \<noteq> [] then Clean (a @ [Separator] @ b)
      else if b \<noteq> [] then Clean b
      else [])"

text \<open>\<open>filepath.Dir\<close>: all but the last element, cleaned.\<close>

definition Dir :: "string \<Rightarrow> string" where
  "Dir path = Clean (rev (dropWhile (\<lambda>c. c \<noteq> Separator) (rev path)))"

text \<open>\<open>strings.HasPrefix(s, p)\<close>\<close>

definition HasPrefix :: "string \<Rightarrow> string \<Rightarrow> bool" where
  "HasPrefix s p = prefix p s"

section \<open>File system (package os)\<close>

text \<open>
  The file system that \<open>Extract\<close> writes to. A file is named by the elements of its
  path, after a first element \<open>/\<close> if the path is rooted: \<open>path_key\<close> is how the system
  resolves a path string, dropping empty elements and \<open>.\<close>. A node is a directory or a
  regular file with its content. What is not modelled: links (two different keys are
  two different files), permission bits and the umask. In place of them, \<open>refuses\<close>
  names the paths at which the system refuses to create or open a file, and the error it
  gives: every statement below holds whatever \<open>refuses\<close> is.
\<close>

type_synonym key = "string list"

datatype node = Directory | File string

record filesystem =
  nodes :: "key \<Rightarrow> node option"
  refuses :: "key \<Rightarrow> error option"

definition path_key :: "string \<Rightarrow> key" where
  "path_key p =
     (if p \<noteq> [] \<and> hd p = Separator then [''/''] else [])
     @ filter (\<lambda>e. e \<noteq> [] \<and> e \<noteq> ''.'') (elements p)"

text \<open>
  \<open>os.Stat\<close>: the root, the working directory and the directories above it exist; every
  other path is looked up.
\<close>

definition Stat :: "filesystem \<Rightarrow> key \<Rightarrow> node option" where
  "Stat fs p = (if p = [''/''] \<or> list_all (\<lambda>e. e = ''..'') p then Some Directory else nodes fs p)"

definition is_dir :: "filesystem \<Rightarrow> key \<Rightarrow> bool" where
  "is_dir fs p = (Stat fs p = Some Directory)"

definition ENOTDIR :: error where
  "ENOTDIR = Foreign ''not a directory''"

definition ENOENT :: error where
  "ENOENT = Foreign ''no such file or directory''"

definition EEXIST :: error where
  "EEXIST = Foreign ''file exists''"

definition EISDIR :: error where
  "EISDIR = Foreign ''is a directory''"

text \<open>\<open>os.Mkdir\<close>\<close>

definition Mkdir :: "filesystem \<Rightarrow> key \<Rightarrow> filesystem \<times> error option" where
  "Mkdir fs p =
     (case refuses fs p of
        Some err \<Rightarrow> (fs, Some err)
      | None \<Rightarrow>
          if Stat fs p \<noteq> None then (fs, Some EEXIST)
          else (case Stat fs (butlast p) of
                  None \<Rightarrow> (fs, Some ENOENT)
                | Some (File c) \<Rightarrow> (fs, Some ENOTDIR)
                | Some Directory \<Rightarrow> (fs\<lparr>nodes := (nodes fs)(p \<mapsto> Directory)\<rparr>, None)))"

text \<open>
  \<open>os.MkdirAll\<close>, on the elements of the path with the last one first: a path that exists
  is fine if it is a directory and an error if it is not; otherwise the parent is made
  first and then the directory itself.
\<close>

fun mkdir_all :: "filesystem \<Rightarrow> key \<Rightarrow> filesystem \<times> error option" where
  "mkdir_all fs [] = (fs, None)"
| "mkdir_all fs (e # parent) =
     (case Stat fs (rev (e # parent)) of
        Some Directory \<Rightarrow> (fs, None)
      | Some (File c) \<Rightarrow> (fs, Some ENOTDIR)
      | None \<Rightarrow>
          (case mkdir_all fs parent of
             (fs', Some err) \<Rightarrow> (fs', Some err)
           | (fs', None) \<Rightarrow>
               (case Mkdir fs' (rev (e # parent)) of
                  (fs'', Some err) \<Rightarrow> if is_dir fs'' (rev (e # parent)) then (fs'', None) else (fs'', Some err)
                | (fs'', None) \<Rightarrow> (fs'', None))))"

definition MkdirAll :: "filesystem \<Rightarrow> key \<Rightarrow> filesystem \<times> error option" where
  "MkdirAll fs p = mkdir_all fs (rev p)"

text \<open>
  \<open>os.OpenFile(name, O_CREATE|O_WRONLY|O_TRUNC, perm)\<close>: the file is created, or emptied
  if it exists; the writes that follow are \<open>Write\<close>.
\<close>

definition OpenFile :: "filesystem \<Rightarrow> key \<Rightarrow> error + filesystem" where
  "OpenFile fs p =
     (case refuses fs p of
        Some err \<Rightarrow> Inl err
      | None \<Rightarrow>
          (case Stat fs p of
             Some Directory \<Rightarrow> Inl EISDIR
           | Some (File c) \<Rightarrow> Inr (fs\<lparr>nodes := (nodes fs)(p \<mapsto> File [])\<rparr>)
           | None \<Rightarrow>
               (case Stat fs (butlast p) of
                  None \<Rightarrow> Inl ENOENT
                | Some (File c) \<Rightarrow> Inl ENOTDIR
                | Some Directory \<Rightarrow> Inr (fs\<lparr>nodes := (nodes fs)(p \<mapsto> File [])\<rparr>))))"

definition Write :: "filesystem \<Rightarrow> key \<Rightarrow> string \<Rightarrow> filesystem" where
  "Write fs p bytes =
     (case nodes fs p of
        Some (File c) \<Rightarrow> fs\<lparr>nodes := (nodes fs)(p \<mapsto> File (c @ bytes))\<rparr>
      | _ \<Rightarrow> fs)"

text \<open>Every file and directory lies in a directory.\<close>

definition wf_fs :: "filesystem \<Rightarrow> bool" where
  "wf_fs fs = (\<forall>p. nodes fs p \<noteq> None \<longrightarrow> p \<noteq> [] \<and> is_dir fs (butlast p))"

text \<open>A regular file exists at the path.\<close>

definition is_file :: "filesystem \<Rightarrow> key \<Rightarrow> bool" where
  "is_file fs p = (\<exists>c. nodes fs p = Some (File c))"

section \<open>Archive codec (package archive)\<close>

text \<open>
  The libraries \<open>archive/tar\<close> and \<open>compress/gzip\<close> are outside the repository. What a
  reader gets out of a byte stream is modelled, not the bytes: either the stream is not
  gzip data (\<open>gzip.NewReader\<close> fails), or it holds a sequence of tar entries and then
  ends with the end-of-archive marker or breaks off with an error at a header. An entry
  is its header and the bytes that the stream holds for its body; when these are fewer
  than the body length, reading the body ends with \<open>io.ErrUnexpectedEOF\<close>.
\<close>

datatype typeflag =
    TypeReg | TypeLink | TypeSymlink | TypeChar | TypeBlock | TypeDir | TypeFifo | TypeCont

record Header =
  Typeflag :: typeflag
  Name :: string
  Linkname :: string
  Size :: nat
  Mode :: int

record entry =
  hdr :: Header
  data :: string

datatype stream_end = EndOfArchive | BrokenHeader error

datatype archive = NotGzip error | Gzip "entry list" stream_end

definition ErrUnexpectedEOF :: error where
  "ErrUnexpectedEOF = Foreign ''unexpected EOF''"

text \<open>The types for which \<open>archive/tar\<close> reads and writes no body.\<close>

definition isHeaderOnlyType :: "typeflag \<Rightarrow> bool" where
  "isHeaderOnlyType flag = (flag \<in> {TypeLink, TypeSymlink, TypeChar, TypeBlock, TypeDir, TypeFifo})"

definition body_len :: "Header \<Rightarrow> nat" where
  "body_len h = (if isHeaderOnlyType (Typeflag h) then 0 else Size h)"

definition truncated :: "entry \<Rightarrow> bool" where
  "truncated e = (length (data e) < body_len (hdr e))"

text \<open>\<open>io.Copy(f, tr)\<close> reads the body of the current entry: the bytes read, and the error.\<close>

definition read_body :: "entry \<Rightarrow> string \<times> error option" where
  "read_body e = (take (body_len (hdr e)) (data e), if truncated e then Some ErrUnexpectedEOF else None)"

text \<open>The path-traversal guard of \<open>Extract\<close>: true when the entry is rejected.\<close>

definition path_traversal :: "string \<Rightarrow> string \<Rightarrow> bool" where
  "path_traversal destDir name =
     (let target = Join destDir name
      in \<not> HasPrefix (Clean target) (Clean destDir @ [Separator]) \<and> Clean target \<noteq> Clean destDir)"

text \<open>The \<open>switch header.Typeflag\<close> of \<open>Extract\<close>, for an entry that passed the guard.\<close>

definition extract_entry :: "filesystem \<Rightarrow> string \<Rightarrow> entry \<Rightarrow> filesystem \<times> error option" where
  "extract_entry fs destDir e =
     (let header = hdr e; target = Join destDir (Name header)
      in case Typeflag header of
           TypeDir \<Rightarrow>
             (case MkdirAll fs (path_key target) of
                (fs', Some err) \<Rightarrow> (fs', Some (Wrap ErrExtract (Some err) []))
              | (fs', None) \<Rightarrow> (fs', None))
         | TypeReg \<Rightarrow>
             (case MkdirAll fs (path_key (Dir target)) of
                (fs', Some err) \<Rightarrow> (fs', Some (Wrap ErrExtract (Some err) []))
              | (fs', None) \<Rightarrow>
                  (case OpenFile fs' (path_key target) of
                     Inl err \<Rightarrow> (fs', Some (Wrap ErrExtract (Some err) []))
                   | Inr f \<Rightarrow>
                       (case read_body e of
                          (bytes, Some err) \<Rightarrow> (Write f (path_key target) bytes, Some (Wrap ErrExtract (Some err) []))
                        | (bytes, None) \<Rightarrow> (Write f (path_key target) bytes, None))))
         | _ \<Rightarrow> (fs, None))"

text \<open>
  The loop of \<open>Extract\<close>. \<open>tr.Next()\<close> at the top of the next round first skips what is
  left of the body of the current entry, and fails if the stream ends before.
\<close>

fun extract_loop :: "string \<Rightarrow> entry list \<Rightarrow> stream_end \<Rightarrow> filesystem \<times> string list
                     \<Rightarrow> filesystem \<times> (error + string list)" where
  "extract_loop destDir [] end (fs, extracted) =
     (case end of
        EndOfArchive \<Rightarrow> (fs, Inr extracted)
      | BrokenHeader err \<Rightarrow> (fs, Inl (Wrap ErrExtract (Some err) [])))"
| "extract_loop destDir (e # es) end (fs, extracted) =
     (if path_traversal destDir (Name (hdr e))
      then (fs, Inl (Wrap ErrExtract None [AString (''path traversal: '' @ Name (hdr e))]))
      else case extract_entry fs destDir e of
             (fs', Some err) \<Rightarrow> (fs', Inl err)
           | (fs', None) \<Rightarrow>
               if truncated e then (fs', Inl (Wrap ErrExtract (Some ErrUnexpectedEOF) []))
               else extract_loop destDir es end (fs', extracted @ [Name (hdr e)]))"

text \<open>\<open>Extract(r, destDir)\<close>: the file system afterwards, and the result.\<close>

definition Extract :: "archive \<Rightarrow> string \<Rightarrow> filesystem \<Rightarrow> filesystem \<times> (error + string list)" where
  "Extract r destDir fs =
     (case r of
        NotGzip err \<Rightarrow> (fs, Inl (Wrap ErrExtract (Some err) []))
      | Gzip es end \<Rightarrow> extract_loop destDir es end (fs, []))"

fun list_loop :: "entry list \<Rightarrow> stream_end \<Rightarrow> string list \<Rightarrow> error + string list" where
  "list_loop [] end entries =
     (case end of
        EndOfArchive \<Rightarrow> Inr entries
      | BrokenHeader err \<Rightarrow> Inl (Wrap ErrExtract (Some err) []))"
| "list_loop (e # es) end entries =
     (if truncated e then Inl (Wrap ErrExtract (Some ErrUnexpectedEOF) [])
      else list_loop es end (entries @ [Name (hdr e)]))"

text \<open>\<open>List(r)\<close>\<close>

definition List :: "archive \<Rightarrow> error + string list" where
  "List r =
     (case r of
        NotGzip err \<Rightarrow> Inl (Wrap ErrExtract (Some err) [])
      | Gzip es end \<Rightarrow> list_loop es end [])"

text \<open>
  An entry is materialised when its directory, or its regular file, exists under the
  destination; entries of the other types have nothing to materialise.
\<close>

definition materialised :: "filesystem \<Rightarrow> string \<Rightarrow> entry \<Rightarrow> bool" where
  "materialised fs destDir e =
     (case Typeflag (hdr e) of
        TypeDir \<Rightarrow> is_dir fs (path_key (Join destDir (Name (hdr e))))
      | TypeReg \<Rightarrow> is_file fs (path_key (Join destDir (Name (hdr e))))
      | _ \<Rightarrow> True)"

text \<open>
  A well-formed archive stream: gzip data whose tar entries all have their whole body
  and that ends with the end-of-archive marker.
\<close>

definition well_formed :: "archive \<Rightarrow> bool" where
  "well_formed r =
     (case r of
        NotGzip err \<Rightarrow> False
      | Gzip es end \<Rightarrow> end = EndOfArchive \<and> list_all (\<lambda>e. \<not> truncated e) es)"

text \<open>
  The files that \<open>Create\<close> reads are given by what the operating system answers:
  \<^item> \<open>Walk root\<close> is the sequence of calls that \<open>filepath.Walk(root, fn)\<close> makes to \<open>fn\<close>
    while \<open>fn\<close> returns nil: the path, and the file information or the error;
  \<^item> \<open>Readlink path\<close> is what \<open>os.Readlink\<close> returns;
  \<^item> \<open>Open path\<close> is what \<open>os.Open\<close> returns: an error, or a file that delivers its
    content and then \<open>io.EOF\<close> or a read error.
\<close>

datatype filemode = ModeRegular | ModeDir | ModeSymlink | ModeNamedPipe | ModeSocket | ModeCharDevice | ModeDevice

record FileInfo =
  fi_Name :: string
  fi_Mode :: filemode
  fi_Perm :: int
  fi_Size :: nat

record source =
  Walk :: "string \<Rightarrow> (string \<times> (error + FileInfo)) list"
  Readlink :: "string \<Rightarrow> error + string"
  Open :: "string \<Rightarrow> error + string Reader"

text \<open>\<open>tar.FileInfoHeader(info, link)\<close>\<close>

definition FileInfoHeader :: "FileInfo \<Rightarrow> string \<Rightarrow> error + Header" where
  "FileInfoHeader fi link =
     (let h = \<lparr>Typeflag = TypeReg, Name = fi_Name fi, Linkname = [], Size = 0, Mode = fi_Perm fi\<rparr>
      in case fi_Mode fi of
           ModeRegular \<Rightarrow> Inr (h\<lparr>Typeflag := TypeReg, Size := fi_Size fi\<rparr>)
         | ModeDir \<Rightarrow> Inr (h\<lparr>Typeflag := TypeDir, Name := fi_Name fi @ ''/''\<rparr>)
         | ModeSymlink \<Rightarrow> Inr (h\<lparr>Typeflag := TypeSymlink, Linkname := link\<rparr>)
         | ModeCharDevice \<Rightarrow> Inr (h\<lparr>Typeflag := TypeChar\<rparr>)
         | ModeDevice \<Rightarrow> Inr (h\<lparr>Typeflag := TypeBlock\<rparr>)
         | ModeNamedPipe \<Rightarrow> Inr (h\<lparr>Typeflag := TypeFifo\<rparr>)
         | ModeSocket \<Rightarrow> Inl (Foreign ''archive/tar: sockets not supported''))"

text \<open>
  The \<open>tar.Writer\<close>: the entries written so far and the number of body bytes that the
  current entry still lacks. \<open>WriteHeader\<close> and \<open>Close\<close> fail while bytes are lacking;
  a write of more bytes than are lacking writes those and fails with \<open>ErrWriteTooLong\<close>.
\<close>

record tar_Writer =
  written :: "entry list"
  pending :: nat

definition WriteHeader :: "tar_Writer \<Rightarrow> Header \<Rightarrow> tar_Writer \<times> error option" where
  "WriteHeader tw h =
     (if pending tw > 0 then (tw, Some (Foreign ''archive/tar: missed writing bytes''))
      else (\<lparr>written = written tw @ [\<lparr>hdr = h, data = []\<rparr>], pending = body_len h\<rparr>, None))"

definition tar_Write :: "tar_Writer \<Rightarrow> string \<Rightarrow> tar_Writer" where
  "tar_Write tw bytes =
     (if written tw = [] then tw
      else \<lparr>written = butlast (written tw) @ [(last (written tw))\<lparr>data := data (last (written tw)) @ bytes\<rparr>],
            pending = pending tw - length bytes\<rparr>)"

text \<open>\<open>io.Copy(tw, f)\<close>\<close>

definition Copy_to_tar :: "tar_Writer \<Rightarrow> string Reader \<Rightarrow> tar_Writer \<times> error option" where
  "Copy_to_tar tw f =
     (if length (content f) > pending tw
      then (tar_Write tw (take (pending tw) (content f)), Some (Foreign ''archive/tar: write too long''))
      else (tar_Write tw (content f), read_error f))"

definition tar_Close :: "tar_Writer \<Rightarrow> error option" where
  "tar_Close tw = (if pending tw > 0 then Some (Foreign ''archive/tar: missed writing bytes'') else None)"

text \<open>The function that \<open>addPath\<close> hands to \<open>filepath.Walk\<close>.\<close>

definition walk_fn :: "source \<Rightarrow> tar_Writer \<Rightarrow> string \<times> (error + FileInfo) \<Rightarrow> tar_Writer \<times> error option" where
  "walk_fn src tw visit =
     (case visit of
        (path, Inl err) \<Rightarrow> (tw, Some err)
      | (path, Inr info) \<Rightarrow>
          (case (if fi_Mode info = ModeSymlink then Readlink src path else Inr []) of
             Inl err \<Rightarrow> (tw, Some err)
           | Inr link \<Rightarrow>
               (case FileInfoHeader info link of
                  Inl err \<Rightarrow> (tw, Some err)
                | Inr header \<Rightarrow>
                    (case WriteHeader tw (header\<lparr>Name := path\<rparr>) of
                       (tw', Some err) \<Rightarrow> (tw', Some err)
                     | (tw', None) \<Rightarrow>
                         if fi_Mode info = ModeDir \<or> fi_Mode info = ModeSymlink then (tw', None)
                         else (case Open src path of
                                 Inl err \<Rightarrow> (tw', Some err)
                               | Inr f \<Rightarrow> Copy_to_tar tw' f)))))"

text \<open>\<open>filepath.Walk\<close> stops at the first call of its function that returns an error.\<close>

fun walk_loop :: "source \<Rightarrow> tar_Writer \<Rightarrow> (string \<times> (error + FileInfo)) list \<Rightarrow> tar_Writer \<times> error option" where
  "walk_loop src tw [] = (tw, None)"
| "walk_loop src tw (visit # visits) =
     (case walk_fn src tw visit of
        (tw', Some err) \<Rightarrow> (tw', Some err)
      | (tw', None) \<Rightarrow> walk_loop src tw' visits)"

definition addPath :: "source \<Rightarrow> tar_Writer \<Rightarrow> string \<Rightarrow> tar_Writer \<times> error option" where
  "addPath src tw root = walk_loop src tw (Walk src root)"

fun add_paths :: "source \<Rightarrow> tar_Writer \<Rightarrow> string list \<Rightarrow> tar_Writer \<times> error option" where
  "add_paths src tw [] = (tw, None)"
| "add_paths src tw (p # ps) =
     (case addPath src tw p of
        (tw', Some err) \<Rightarrow> (tw', Some (Wrap ErrCreateArchive (Some err) [AString p]))
      | (tw', None) \<Rightarrow> add_paths src tw' ps)"

text \<open>
  \<open>Create(w, paths)\<close>: what \<open>w\<close> has received, as a reader of it will see it, and the
  error. After an error the stream lacks its end. Errors of \<open>w\<close> itself are not modelled.
\<close>

definition Create :: "source \<Rightarrow> string list \<Rightarrow> archive \<times> error option" where
  "Create src paths =
     (case add_paths src \<lparr>written = [], pending = 0\<rparr> paths of
        (tw, Some err) \<Rightarrow> (Gzip (written tw) (BrokenHeader ErrUnexpectedEOF), Some err)
      | (tw, None) \<Rightarrow>
          (case tar_Close tw of
             Some err \<Rightarrow> (Gzip (written tw) (BrokenHeader ErrUnexpectedEOF), Some (Wrap ErrCreateArchive (Some err) []))
           | None \<Rightarrow> (Gzip (written tw) EndOfArchive, None)))"

text \<open>
  What a successful call of the walk function has appended to the archive for a visit:
  an entry named by the path as walked; for a regular file, of type \<open>TypeReg\<close>, with the
  size of the file information and, as its body so far, the content read from the file.
  The body may still lack bytes (\<open>appended\<close>) or be complete (\<open>archived\<close>).
\<close>

definition appended :: "source \<Rightarrow> string \<times> (error + FileInfo) \<Rightarrow> entry \<Rightarrow> bool" where
  "appended src visit e =
     (case visit of
        (path, Inl err) \<Rightarrow> False
      | (path, Inr info) \<Rightarrow>
          Name (hdr e) = path \<and> length (data e) \<le> body_len (hdr e) \<and>
          (case fi_Mode info of
             ModeRegular \<Rightarrow>
               Typeflag (hdr e) = TypeReg \<and> Size (hdr e) = fi_Size info \<and>
               Open src path = Inr \<lparr>content = data e, read_error = None\<rparr>
           | ModeDir \<Rightarrow> Typeflag (hdr e) = TypeDir
           | _ \<Rightarrow> True))"

definition archived :: "source \<Rightarrow> string \<times> (error + FileInfo) \<Rightarrow> entry \<Rightarrow> bool" where
  "archived src visit e =
     (case visit of
        (path, Inl err) \<Rightarrow> False
      | (path, Inr info) \<Rightarrow>
          Name (hdr e) = path \<and> length (data e) = body_len (hdr e) \<and>
          (case fi_Mode info of
             ModeRegular \<Rightarrow>
               Typeflag (hdr e) = TypeReg \<and> Size (hdr e) = fi_Size info \<and>
               Open src path = Inr \<lparr>content = data e, read_error = None\<rparr>
           | ModeDir \<Rightarrow> Typeflag (hdr e) = TypeDir
           | _ \<Rightarrow> True))"

section \<open>Create command (package create)\<close>

text \<open>
  The surroundings of \<open>Run\<close>: the key fetcher of the configuration, \<open>os.Create\<close> (which
  gives the output file as a writer), the files to archive, and \<open>f.Stat()\<close> (the size).
\<close>

record Result =
  File_name :: string
  Recipients :: nat
  Size_bytes :: nat

record world =
  KeyFetcher :: "string \<Rightarrow> error + Recipient list"
  os_Create :: "string \<Rightarrow> error + Writer"
  files :: source
  f_Stat :: "error + nat"

text \<open>
  \<open>Run\<close>. The producer goroutine runs \<open>archive.Create\<close> into the pipe, closes the pipe with
  the error of \<open>Create\<close> and sends it on \<open>errCh\<close>; the consumer, \<open>crypt.Encrypt\<close>, reads the
  pipe: it receives what \<open>Create\<close> wrote and then \<open>io.EOF\<close>, or the error of \<open>Create\<close>. The
  pipe hands over every write as it is made, so what the consumer reads does not depend
  on how the two are scheduled. When the consumer fails, \<open>Run\<close> returns without
  receiving from \<open>errCh\<close>.
\<close>

definition Run :: "world \<Rightarrow> string list \<Rightarrow> error + Result" where
  "Run config args =
     (if length args < 3
      then Inl (Wrap ErrMissingArgument None [AString ''usage: <github-username> <archive-file> <paths...>''])
      else let username = args ! 0; archiveFile = args ! 1; paths = drop 2 args
           in case KeyFetcher config username of
                Inl err \<Rightarrow> Inl err
              | Inr recipients \<Rightarrow>
                  (case os_Create config archiveFile of
                     Inl err \<Rightarrow> Inl (Wrap ErrOpenFile (Some err) [AString archiveFile])
                   | Inr f \<Rightarrow>
                       (let (piped, errCh) = Create (files config) paths;
                            pr = \<lparr>content = piped, read_error = errCh\<rparr>
                        in case Encrypt f pr recipients of
                             Inl err \<Rightarrow> Inl err
                           | Inr encrypted \<Rightarrow>
                               (case errCh of
                                  Some err \<Rightarrow> Inl err
                                | None \<Rightarrow>
                                    (case f_Stat config of
                                       Inl err \<Rightarrow> Inl err
                                     | Inr info_Size \<Rightarrow>
                                         Inr \<lparr>File_name = archiveFile, Recipients = length recipients,
                                              Size_bytes = info_Size\<rparr>)))))"

text \<open>
  The round trip of the integration tests: \<open>Create\<close> into a buffer, \<open>Encrypt\<close> the buffer
  into a file, \<open>Decrypt\<close> the file into a buffer, \<open>Extract\<close> the buffer.
\<close>

definition round_trip ::
  "source \<Rightarrow> string list \<Rightarrow> Recipient list \<Rightarrow> Identity list \<Rightarrow> string \<Rightarrow> filesystem
   \<Rightarrow> filesystem \<times> (error + string list)" where
  "round_trip src paths recipients identities destDir fs =
     (case Create src paths of
        (archiveBuf, Some err) \<Rightarrow> (fs, Inl err)
      | (archiveBuf, None) \<Rightarrow>
          (case Encrypt None \<lparr>content = archiveBuf, read_error = None\<rparr> recipients of
             Inl err \<Rightarrow> (fs, Inl err)
           | Inr encrypted \<Rightarrow>
               (case Decrypt encrypted identities of
                  Inl err \<Rightarrow> (fs, Inl err)
                | Inr decrypted \<Rightarrow> Extract decrypted destDir fs)))"

section \<open>Test fixtures\<close>

text \<open>
  A stand-in for \<open>agessh.ParseRecipient\<close>, to run \<open>FetchRecipients\<close> on concrete listings:
  it accepts a line that starts with the key-type word \<open>ssh-rsa\<close> or \<open>ssh-ed25519\<close> and
  takes the rest of the line as the key material.
\<close>

definition test_ParseRecipient :: "string \<Rightarrow> error + Recipient" where
  "test_ParseRecipient s =
     (if prefix ''ssh-rsa '' s then Inr (Recipient RSA (drop 8 s))
      else if prefix ''ssh-ed25519 '' s then Inr (Recipient Ed25519 (drop 12 s))
      else Inl (Foreign ''unknown SSH recipient type''))"

text \<open>A client that answers every request with status 200 and the given body.\<close>

definition test_server :: "string \<Rightarrow> HTTPClient" where
  "test_server body =
     \<lparr>NewRequest = (\<lambda>url. None), Do = (\<lambda>url. Inr \<lparr>StatusCode = 200, Body = Inr body\<rparr>)\<rparr>"

text \<open>An empty file system that refuses nothing, and entries as \<open>Create\<close> writes them.\<close>

definition empty_fs :: filesystem where
  "empty_fs = \<lparr>nodes = (\<lambda>p. None), refuses = (\<lambda>p. None)\<rparr>"

definition reg_entry :: "string \<Rightarrow> string \<Rightarrow> entry" where
  "reg_entry name bytes =
     \<lparr>hdr = \<lparr>Typeflag = TypeReg, Name = name, Linkname = [], Size = length bytes, Mode = 420\<rparr>, data = bytes\<rparr>"

definition dir_entry :: "string \<Rightarrow> entry" where
  "dir_entry name =
     \<lparr>hdr = \<lparr>Typeflag = TypeDir, Name = name, Linkname = [], Size = 0, Mode = 493\<rparr>, data = []\<rparr>"

definition symlink_entry :: "string \<Rightarrow> string \<Rightarrow> entry" where
  "symlink_entry name target =
     \<lparr>hdr = \<lparr>Typeflag = TypeSymlink, Name = name, Linkname = target, Size = 0, Mode = 511\<rparr>, data = []\<rparr>"

text \<open>
  Files to archive: a directory \<open>src\<close> with the file \<open>src/a.txt\<close>, the file \<open>../data.txt\<close>,
  and two different files \<open>/abs/f.txt\<close> and \<open>abs/f.txt\<close>; no other path exists. And the
  surroundings of a run of the create command: one Ed25519 recipient, an output file
  that accepts every write and has 512 bytes in the end.
\<close>

definition test_files :: source where
  "test_files =
     \<lparr>Walk = (\<lambda>root.
         if root = ''src''
         then [(''src'', Inr \<lparr>fi_Name = ''src'', fi_Mode = ModeDir, fi_Perm = 493, fi_Size = 0\<rparr>),
               (''src/a.txt'', Inr \<lparr>fi_Name = ''a.txt'', fi_Mode = ModeRegular, fi_Perm = 420, fi_Size = 3\<rparr>)]
         else if root = ''../data.txt''
         then [(''../data.txt'', Inr \<lparr>fi_Name = ''data.txt'', fi_Mode = ModeRegular, fi_Perm = 420, fi_Size = 4\<rparr>)]
         else if root = ''/abs/f.txt''
         then [(''/abs/f.txt'', Inr \<lparr>fi_Name = ''f.txt'', fi_Mode = ModeRegular, fi_Perm = 420, fi_Size = 3\<rparr>)]
         else if root = ''abs/f.txt''
         then [(''abs/f.txt'', Inr \<lparr>fi_Name = ''f.txt'', fi_Mode = ModeRegular, fi_Perm = 420, fi_Size = 3\<rparr>)]
         else [(root, Inl (Foreign ''lstat: no such file or directory''))]),
      Readlink = (\<lambda>path. Inl (Foreign ''readlink: invalid argument'')),
      Open = (\<lambda>path.
         if path = ''src/a.txt'' then Inr \<lparr>content = ''aaa'', read_error = None\<rparr>
         else if path = ''../data.txt'' then Inr \<lparr>content = ''data'', read_error = None\<rparr>
         else if path = ''/abs/f.txt'' then Inr \<lparr>content = ''one'', read_error = None\<rparr>
         else if path = ''abs/f.txt'' then Inr \<lparr>content = ''two'', read_error = None\<rparr>
         else Inl (Foreign ''open: no such file or directory''))\<rparr>"

definition test_world :: "source \<Rightarrow> world" where
  "test_world src =
     \<lparr>KeyFetcher = (\<lambda>username. Inr [Recipient Ed25519 ''A'']),
      os_Create = (\<lambda>name. Inr None),
      files = src,
      f_Stat = Inr 512\<rparr>"

section \<open>Properties of the key resolver\<close>

lemma ScanLines_Nil: "ScanLines [] = []"
  by (subst ScanLines.simps) simp

lemma ScanLines_too_long:
  "MaxScanTokenSize \<le> length (takeWhile (\<lambda>c. c \<noteq> LF) s) \<Longrightarrow> ScanLines s = []"
  by (subst ScanLines.simps) (simp add: Let_def)

lemma ScanLines_line:
  "s \<noteq> [] \<Longrightarrow> length (takeWhile (\<lambda>c. c \<noteq> LF) s) < MaxScanTokenSize \<Longrightarrow>
   ScanLines s = dropCR (takeWhile (\<lambda>c. c \<noteq> LF) s) # ScanLines (drop 1 (dropWhile (\<lambda>c. c \<noteq> LF) s))"
  by (subst ScanLines.simps) (simp add: Let_def)

lemma listing_lines_Nil: "listing_lines [] = []"
  by (subst listing_lines.simps) simp

lemma listing_lines_line:
  "s \<noteq> [] \<Longrightarrow>
   listing_lines s = takeWhile (\<lambda>c. c \<noteq> LF) s # listing_lines (drop 1 (dropWhile (\<lambda>c. c \<noteq> LF) s))"
  by (subst listing_lines.simps) simp

text \<open>Every token of the scanner is a line of the listing, less one trailing carriage return.\<close>

lemma ScanLines_tokens:
  "t \<in> set (ScanLines s) \<Longrightarrow> \<exists>l \<in> set (listing_lines s). t = dropCR l"
proof (induction s rule: ScanLines.induct)
  case (1 s)
  show ?case
  proof (cases "s = [] \<or> length (takeWhile (\<lambda>c. c \<noteq> LF) s) \<ge> MaxScanTokenSize")
    case True
    with "1.prems" show ?thesis by (auto simp: ScanLines_Nil ScanLines_too_long)
  next
    case False
    then have s: "s \<noteq> []" and short: "length (takeWhile (\<lambda>c. c \<noteq> LF) s) < MaxScanTokenSize"
      by auto
    from "1.prems" have "t = dropCR (takeWhile (\<lambda>c. c \<noteq> LF) s)
        \<or> t \<in> set (ScanLines (drop 1 (dropWhile (\<lambda>c. c \<noteq> LF) s)))"
      by (simp add: ScanLines_line [OF s short])
    then show ?thesis
    proof
      assume "t = dropCR (takeWhile (\<lambda>c. c \<noteq> LF) s)"
      then show ?thesis by (simp add: listing_lines_line [OF s])
    next
      assume "t \<in> set (ScanLines (drop 1 (dropWhile (\<lambda>c. c \<noteq> LF) s)))"
      with s short "1.IH" [OF _ refl refl]
      have "\<exists>l \<in> set (listing_lines (drop 1 (dropWhile (\<lambda>c. c \<noteq> LF) s))). t = dropCR l"
        by simp
      then show ?thesis by (auto simp: listing_lines_line [OF s])
    qed
  qed
qed

lemma TrimSpace_dropCR: "TrimSpace (dropCR l) = TrimSpace l"
proof (cases "l \<noteq> [] \<and> last l = CR")
  case True
  then obtain xs where l: "l = xs @ [CR]" by (metis append_butlast_last_id)
  have "isSpace CR" by (simp add: isSpace_def CR_def)
  then show ?thesis unfolding l by (simp add: TrimSpace_def dropCR_def)
next
  case False
  then show ?thesis by (auto simp: dropCR_def)
qed

lemma scan_loop_recipients:
  "snd (scan_loop P ts (log, rs)) = rs @ List.map_filter (parsed P) ts"
  by (induction ts arbitrary: log rs)
     (auto simp: Let_def parsed_def List.map_filter_simps split: sum.splits)

lemma scan_loop_none:
  "\<forall>t \<in> set ts. TrimSpace t = [] \<or> isl (P (TrimSpace t)) \<Longrightarrow> snd (scan_loop P ts (log, rs)) = rs"
  by (induction ts arbitrary: log) (auto simp: Let_def split: sum.splits)


lemma ScanLines_short:
  "\<forall>l \<in> set (listing_lines s). length l < MaxScanTokenSize \<Longrightarrow> ScanLines s = map dropCR (listing_lines s)"
proof (induction s rule: listing_lines.induct)
  case (1 s)
  show ?case
  proof (cases "s = []")
    case True
    then show ?thesis by (simp add: ScanLines_Nil listing_lines_Nil)
  next
    case False
    with "1.prems" have short: "length (takeWhile (\<lambda>c. c \<noteq> LF) s) < MaxScanTokenSize"
      and rest: "\<forall>l \<in> set (listing_lines (drop 1 (dropWhile (\<lambda>c. c \<noteq> LF) s))). length l < MaxScanTokenSize"
      by (simp_all add: listing_lines_line [OF False])
    from "1.IH" [OF False rest] show ?thesis
      by (simp add: ScanLines_line [OF False short] listing_lines_line [OF False])
  qed
qed

lemma FetchRecipients_short_lines:
  assumes "NewRequest client (keys_url username) = None"
    and "Do client (keys_url username) = Inr resp"
    and "StatusCode resp = StatusOK"
    and "Body resp = Inr body"
    and "\<forall>l \<in> set (listing_lines body). length l < MaxScanTokenSize"
  shows "snd (FetchRecipients P client username)
         = (let rs = List.map_filter (parsed P) (listing_lines body)
            in if rs = [] then Inl (Wrap ErrNoValidKeys None [AString username]) else Inr rs)"
proof -
  have p: "parsed P (dropCR l) = parsed P l" for l
    by (simp add: parsed_def TrimSpace_dropCR)
  have "List.map_filter (parsed P) (map dropCR xs) = List.map_filter (parsed P) xs" for xs
    by (induction xs) (simp_all add: List.map_filter_simps p split: option.splits)
  then have "snd (scan_loop P (ScanLines body) ([], [])) = List.map_filter (parsed P) (listing_lines body)"
    by (simp add: scan_loop_recipients ScanLines_short [OF assms(5)])
  then obtain log where "scan_loop P (ScanLines body) ([], []) = (log, List.map_filter (parsed P) (listing_lines body))"
    by (metis prod.collapse)
  then show ?thesis
    using assms(1-4) by (simp add: FetchRecipients_def Let_def)
qed

text \<open>Facts for running the resolver on the test listings.\<close>

lemma takeWhile_long:
  "takeWhile (\<lambda>c. c \<noteq> LF) (replicate n (CHR ''x'') @ LF # rest) = replicate n (CHR ''x'')"
  by (induction n) (simp_all add: LF_def)

lemma dropWhile_long:
  "dropWhile (\<lambda>c. c \<noteq> LF) (replicate n (CHR ''x'') @ LF # rest) = LF # rest"
  by (induction n) (simp_all add: LF_def)

lemma parsed_x: "parsed test_ParseRecipient (replicate (Suc n) (CHR ''x'')) = None"
proof -
  have "\<not> isSpace (CHR ''x'')" by (simp add: isSpace_def)
  then have "TrimSpace (replicate (Suc n) (CHR ''x'')) = replicate (Suc n) (CHR ''x'')"
    unfolding TrimSpace_def rev_replicate by (simp del: replicate_Suc add: dropWhile_replicate)
  then have "TrimSpace (replicate (Suc n) (CHR ''x'')) = CHR ''x'' # replicate n (CHR ''x'')"
    by simp
  then show ?thesis by (simp add: parsed_def test_ParseRecipient_def)
qed

lemma parsed_key: "parsed test_ParseRecipient ''ssh-ed25519 AAAA'' = Some (Recipient Ed25519 ''AAAA'')"
  by (simp add: parsed_def test_ParseRecipient_def TrimSpace_def isSpace_def)


lemma listing_ex1: "listing_lines (LF # LF # ''ecdsa-sha2-nistp256 AAAA'' @ [LF]) = [[], [], ''ecdsa-sha2-nistp256 AAAA'']"
  by (simp add: listing_lines_line listing_lines_Nil LF_def)


text \<open>
  Claim C5. When the fetch itself succeeds (the request is built, the client answers with
  status 200 and the body is read) and every line of the listing is blank or fails to
  parse as a supported public key, \<open>FetchRecipients\<close> fails with the error built by
  \<open>ErrNoValidKeys.Wrap(nil, username)\<close>, which \<open>errors.Is\<close> recognises as \<open>ErrNoValidKeys\<close>.
\<close>

theorem FetchRecipients_no_usable_key:
  assumes "NewRequest client (keys_url username) = None"
    and "Do client (keys_url username) = Inr resp"
    and "StatusCode resp = StatusOK"
    and "Body resp = Inr body"
    and "\<forall>l \<in> set (listing_lines body). TrimSpace l = [] \<or> isl (ParseRecipient (TrimSpace l))"
  shows "snd (FetchRecipients ParseRecipient client username)
           = Inl (Wrap ErrNoValidKeys None [AString username])
         \<and> errors_Is (Wrap ErrNoValidKeys None [AString username]) ErrNoValidKeys"
proof -
  have "\<forall>t \<in> set (ScanLines body). TrimSpace t = [] \<or> isl (ParseRecipient (TrimSpace t))"
    using assms(5) ScanLines_tokens [of _ body] TrimSpace_dropCR by metis
  then have "snd (scan_loop ParseRecipient (ScanLines body) ([], [])) = []"
    by (rule scan_loop_none)
  then obtain log where "scan_loop ParseRecipient (ScanLines body) ([], []) = (log, [])"
    by (metis prod.collapse)
  then show ?thesis
    using assms(1-4) by (simp add: FetchRecipients_def Wrap_def)
qed


theorem FetchRecipients_no_usable_key_witness:
  "NewRequest (test_server (LF # LF # ''ecdsa-sha2-nistp256 AAAA'' @ [LF])) (keys_url ''testuser'') = None
   \<and> Do (test_server (LF # LF # ''ecdsa-sha2-nistp256 AAAA'' @ [LF])) (keys_url ''testuser'')
       = Inr \<lparr>StatusCode = 200, Body = Inr (LF # LF # ''ecdsa-sha2-nistp256 AAAA'' @ [LF])\<rparr>
   \<and> listing_lines (LF # LF # ''ecdsa-sha2-nistp256 AAAA'' @ [LF]) = [[], [], ''ecdsa-sha2-nistp256 AAAA'']
   \<and> TrimSpace [] = []
   \<and> isl (test_ParseRecipient (TrimSpace ''ecdsa-sha2-nistp256 AAAA''))
   \<and> snd (FetchRecipients test_ParseRecipient (test_server (LF # LF # ''ecdsa-sha2-nistp256 AAAA'' @ [LF])) ''testuser'')
       = Inl (Wrap ErrNoValidKeys None [AString ''testuser''])
   \<and> Error (Wrap ErrNoValidKeys None [AString ''testuser'']) = ''no valid keys found: testuser: no valid keys found''"
proof -
  let ?body = "LF # LF # ''ecdsa-sha2-nistp256 AAAA'' @ [LF]"
  have 1: "NewRequest (test_server ?body) (keys_url ''testuser'') = None"
    by (simp add: test_server_def)
  have 2: "Do (test_server ?body) (keys_url ''testuser'')
       = Inr \<lparr>StatusCode = 200, Body = Inr ?body\<rparr>"
    by (simp add: test_server_def)
  have 3: "StatusCode \<lparr>StatusCode = 200, Body = Inr ?body\<rparr> = StatusOK"
    by (simp add: StatusOK_def)
  have 4: "Body \<lparr>StatusCode = 200, Body = Inr ?body\<rparr> = Inr ?body"
    by simp
  have t: "TrimSpace [] = []"
    by (simp add: TrimSpace_def)
  have p: "isl (test_ParseRecipient (TrimSpace ''ecdsa-sha2-nistp256 AAAA''))"
    by (simp add: TrimSpace_def isSpace_def test_ParseRecipient_def)
  have 5: "\<forall>l \<in> set (listing_lines ?body). TrimSpace l = [] \<or> isl (test_ParseRecipient (TrimSpace l))"
    unfolding listing_ex1 using t p by simp
  have 6: "Error (Wrap ErrNoValidKeys None [AString ''testuser'']) = ''no valid keys found: testuser: no valid keys found''"
    by (simp add: Wrap_def)
  from FetchRecipients_no_usable_key [OF 1 2 3 4 5] 1 2 t p 6 listing_ex1 show ?thesis by blast
qed

text \<open>
  Claim C6. A line that does not parse is skipped, and the lines after it are resolved,
  only while the line is shorter than the scanner's buffer: at a listing whose first line
  has 65536 bytes and whose second line is a well-formed key, the scanner stops at the
  first line, the key is never parsed, and the result is \<open>ErrNoValidKeys\<close>. With one byte
  less in the first line, the same listing resolves to exactly one recipient.
\<close>

theorem FetchRecipients_overlong_line:
  "snd (FetchRecipients test_ParseRecipient
          (test_server (replicate 65536 (CHR ''x'') @ LF # ''ssh-ed25519 AAAA'' @ [LF])) ''testuser'')
     = Inl (Wrap ErrNoValidKeys None [AString ''testuser''])
   \<and> snd (FetchRecipients test_ParseRecipient
          (test_server (replicate 65535 (CHR ''x'') @ LF # ''ssh-ed25519 AAAA'' @ [LF])) ''testuser'')
     = Inr [Recipient Ed25519 ''AAAA'']"
proof -
  define key where "key = ''ssh-ed25519 AAAA'' @ [LF]"
  define long where "long = replicate 65536 (CHR ''x'') @ LF # key"
  define short where "short = replicate 65535 (CHR ''x'') @ LF # key"
  have "ScanLines long = []"
    unfolding long_def by (rule ScanLines_too_long) (simp add: takeWhile_long MaxScanTokenSize_def)
  then have a: "snd (FetchRecipients test_ParseRecipient (test_server long) ''testuser'')
     = Inl (Wrap ErrNoValidKeys None [AString ''testuser''])"
    by (simp add: FetchRecipients_def test_server_def StatusOK_def)
  have k: "listing_lines key = [''ssh-ed25519 AAAA'']"
    unfolding key_def by (simp add: listing_lines_line listing_lines_Nil LF_def)
  have l: "listing_lines short = [replicate 65535 (CHR ''x''), ''ssh-ed25519 AAAA'']"
    unfolding short_def by (subst listing_lines_line) (simp_all add: takeWhile_long dropWhile_long k)
  have px: "parsed test_ParseRecipient (replicate 65535 (CHR ''x'')) = None"
    using parsed_x [of 65534] by (simp del: replicate_Suc)
  have "snd (FetchRecipients test_ParseRecipient (test_server short) ''testuser'')
     = (let rs = List.map_filter (parsed test_ParseRecipient) (listing_lines short)
        in if rs = [] then Inl (Wrap ErrNoValidKeys None [AString ''testuser'']) else Inr rs)"
    by (rule FetchRecipients_short_lines [where resp = "\<lparr>StatusCode = 200, Body = Inr short\<rparr>"])
       (simp_all add: test_server_def StatusOK_def l MaxScanTokenSize_def)
  also have "\<dots> = Inr [Recipient Ed25519 ''AAAA'']"
    unfolding l by (simp add: px parsed_key)
  finally show ?thesis using a unfolding long_def short_def key_def by simp
qed

section \<open>Properties of the envelope\<close>

lemma Encrypt_Inr:
  "Encrypt w r recipients = Inr env \<Longrightarrow> env = Envelope recipients (content r) True \<and> recipients \<noteq> []"
  by (auto simp: Encrypt_def age_Encrypt_def split: if_splits option.splits sum.splits)


text \<open>
  Key independence in the model: when a plaintext has been encrypted for a list of
  recipients, a single identity whose public key is among them recovers the plaintext,
  and with a single identity whose public key is not among them \<open>Decrypt\<close> returns the
  error \<open>ErrDecrypt.Wrap(err)\<close>.
\<close>

lemma Decrypt_key_independence:
  assumes "Encrypt w r recipients = Inr env"
  shows "(public_of i \<in> set recipients \<longrightarrow> Decrypt env [i] = Inr (content r))
       \<and> (public_of i \<notin> set recipients \<longrightarrow>
            (\<exists>err. Decrypt env [i] = Inl (Wrap ErrDecrypt (Some err) [])
                   \<and> Error (Wrap ErrDecrypt (Some err) []) = ''failed to decrypt: '' @ Error err))"
proof -
  from assms have env: "env = Envelope recipients (content r) True"
    by (simp add: Encrypt_Inr)
  show ?thesis
    unfolding env by (auto simp: Decrypt_def age_Decrypt_def unwraps_def Wrap_def)
qed



text \<open>\<open>errors.Is\<close> on an error that \<open>Wrap\<close> has built: with a cause, only the cause is wrapped.\<close>

lemma errors_Is_Wrap_Some: "errors_Is (Wrap c (Some err) args) c' = errors_Is err c'"
  by (simp add: Wrap_def Let_def)

lemma errors_Is_Wrap_None: "errors_Is (Wrap c None args) c' = (c = c')"
  by (simp add: Wrap_def Let_def)

text \<open>
  Claim C3. A plaintext encrypted for the recipients A and B is recovered with the
  identity of B alone, and decryption with the identity C, whose public key is not among
  the recipients, fails. The error of that failure is \<open>ErrDecrypt.Wrap(err)\<close>, with the
  error \<open>err\<close> of the library: its message starts with \<open>failed to decrypt\<close>, but it wraps
  \<open>err\<close> and not the sentinel, so \<open>errors.Is(err, ErrDecrypt)\<close> is false, whereas an error
  that \<open>Wrap\<close> builds without a cause is recognised by \<open>errors.Is\<close>.
\<close>

theorem Decrypt_wrong_identity_error:
  "Encrypt None \<lparr>content = ''secret'', read_error = None\<rparr> [Recipient Ed25519 ''A'', Recipient RSA ''B'']
     = Inr (Envelope [Recipient Ed25519 ''A'', Recipient RSA ''B''] ''secret'' True)
   \<and> Decrypt (Envelope [Recipient Ed25519 ''A'', Recipient RSA ''B''] ''secret'' True) [Identity RSA ''B'']
       = Inr ''secret''
   \<and> Decrypt (Envelope [Recipient Ed25519 ''A'', Recipient RSA ''B''] ''secret'' True) [Identity Ed25519 ''C'']
       = Inl (Wrap ErrDecrypt (Some (Foreign ''no identity matched any of the recipients'')) [])
   \<and> Error (Wrap ErrDecrypt (Some (Foreign ''no identity matched any of the recipients'')) [])
       = ''failed to decrypt: no identity matched any of the recipients''
   \<and> \<not> errors_Is (Wrap ErrDecrypt (Some (Foreign ''no identity matched any of the recipients'')) []) ErrDecrypt
   \<and> errors_Is (Wrap ErrDecrypt None []) ErrDecrypt"
  by (simp add: Encrypt_def age_Encrypt_def Decrypt_def age_Decrypt_def unwraps_def Wrap_def)

section \<open>Properties of the file system\<close>

lemma Stat_None: "Stat fs p = None \<Longrightarrow> nodes fs p = None"
  by (auto simp: Stat_def split: if_splits)

lemma Stat_File: "Stat fs p = Some (File c) \<Longrightarrow> nodes fs p = Some (File c)"
  by (auto simp: Stat_def split: if_splits)

lemma nodes_Directory: "nodes fs p = Some Directory \<Longrightarrow> Stat fs p = Some Directory"
  by (auto simp: Stat_def)

lemma is_dir_update_nodes:
  "is_dir fs q \<Longrightarrow> nodes fs p \<noteq> Some Directory \<Longrightarrow> is_dir (fs\<lparr>nodes := (nodes fs)(p \<mapsto> n)\<rparr>) q"
  by (auto simp: is_dir_def Stat_def split: if_splits)

lemma is_dir_update:
  "is_dir fs q \<Longrightarrow> Stat fs p \<noteq> Some Directory \<Longrightarrow> is_dir (fs\<lparr>nodes := (nodes fs)(p \<mapsto> n)\<rparr>) q"
  by (rule is_dir_update_nodes) (auto dest: nodes_Directory)

lemma is_dir_new: "is_dir (fs\<lparr>nodes := (nodes fs)(p \<mapsto> Directory)\<rparr>) p"
  by (auto simp: is_dir_def Stat_def)

lemma is_dir_Nil: "is_dir fs []"
  by (simp add: is_dir_def Stat_def)

lemma Mkdir_is_dir: "Mkdir fs p = (fs', err) \<Longrightarrow> is_dir fs q \<Longrightarrow> is_dir fs' q"
  by (auto simp: Mkdir_def is_dir_update split: option.splits if_splits node.splits)

lemma Mkdir_nodes: "Mkdir fs p = (fs', err) \<Longrightarrow> nodes fs q = Some n \<Longrightarrow> nodes fs' q = Some n"
  by (auto simp: Mkdir_def Stat_def split: option.splits if_splits node.splits)

lemma Mkdir_ok: "Mkdir fs p = (fs', None) \<Longrightarrow> is_dir fs' p"
  by (auto simp: Mkdir_def is_dir_new split: option.splits if_splits node.splits)

lemma Mkdir_wf: "wf_fs fs \<Longrightarrow> Mkdir fs p = (fs', err) \<Longrightarrow> wf_fs fs'"
proof -
  assume wf: "wf_fs fs" and m: "Mkdir fs p = (fs', err)"
  show "wf_fs fs'"
  proof (cases "fs' = fs")
    case True with wf show ?thesis by simp
  next
    case False
    with m have fs': "fs' = fs\<lparr>nodes := (nodes fs)(p \<mapsto> Directory)\<rparr>"
      and par: "Stat fs (butlast p) = Some Directory" and new: "Stat fs p = None"
      by (auto simp: Mkdir_def split: option.splits if_splits node.splits)
    from new have pne: "p \<noteq> []" by (auto simp: Stat_def)
    have nd: "Stat fs p \<noteq> Some Directory" using new by simp
    show ?thesis unfolding wf_fs_def
    proof (intro allI impI)
      fix q assume q: "nodes fs' q \<noteq> None"
      show "q \<noteq> [] \<and> is_dir fs' (butlast q)"
      proof (cases "q = p")
        case True
        have "is_dir fs (butlast p)" using par by (simp add: is_dir_def)
        then have "is_dir fs' (butlast p)" unfolding fs' by (rule is_dir_update [OF _ nd])
        with True pne show ?thesis by simp
      next
        case False
        with q have "nodes fs q \<noteq> None" by (simp add: fs')
        with wf have "q \<noteq> []" and "is_dir fs (butlast q)" by (auto simp: wf_fs_def)
        then show ?thesis unfolding fs' using is_dir_update [OF _ nd] by simp
      qed
    qed
  qed
qed

lemma mkdir_all_is_dir: "mkdir_all fs rp = (fs', err) \<Longrightarrow> is_dir fs q \<Longrightarrow> is_dir fs' q"
proof (induction rp arbitrary: fs' err)
  case Nil then show ?case by simp
next
  case (Cons e parent)
  show ?case
  proof (cases "Stat fs (rev (e # parent))")
    case (Some n)
    with Cons.prems show ?thesis by (cases n) auto
  next
    case None
    obtain fs1 err1 where r: "mkdir_all fs parent = (fs1, err1)" by (cases "mkdir_all fs parent")
    from Cons.IH [OF r Cons.prems(2)] have d1: "is_dir fs1 q" .
    show ?thesis
    proof (cases err1)
      case (Some x)
      with Cons.prems None r d1 show ?thesis by simp
    next
      case n1: None
      obtain fs2 err2 where m: "Mkdir fs1 (rev (e # parent)) = (fs2, err2)" by (cases "Mkdir fs1 (rev (e # parent))")
      from Mkdir_is_dir [OF m d1] have "is_dir fs2 q" .
      with Cons.prems None r n1 m show ?thesis by (auto split: option.splits if_splits)
    qed
  qed
qed

lemma mkdir_all_nodes: "mkdir_all fs rp = (fs', err) \<Longrightarrow> nodes fs q = Some n \<Longrightarrow> nodes fs' q = Some n"
proof (induction rp arbitrary: fs' err)
  case Nil then show ?case by simp
next
  case (Cons e parent)
  show ?case
  proof (cases "Stat fs (rev (e # parent))")
    case (Some n)
    with Cons.prems show ?thesis by (cases n) auto
  next
    case None
    obtain fs1 err1 where r: "mkdir_all fs parent = (fs1, err1)" by (cases "mkdir_all fs parent")
    from Cons.IH [OF r Cons.prems(2)] have d1: "nodes fs1 q = Some n" .
    show ?thesis
    proof (cases err1)
      case (Some x)
      with Cons.prems None r d1 show ?thesis by simp
    next
      case n1: None
      obtain fs2 err2 where m: "Mkdir fs1 (rev (e # parent)) = (fs2, err2)" by (cases "Mkdir fs1 (rev (e # parent))")
      from Mkdir_nodes [OF m d1] have "nodes fs2 q = Some n" .
      with Cons.prems None r n1 m show ?thesis by (auto split: option.splits if_splits)
    qed
  qed
qed

lemma mkdir_all_wf: "mkdir_all fs rp = (fs', err) \<Longrightarrow> wf_fs fs \<Longrightarrow> wf_fs fs'"
proof (induction rp arbitrary: fs' err)
  case Nil then show ?case by simp
next
  case (Cons e parent)
  show ?case
  proof (cases "Stat fs (rev (e # parent))")
    case (Some n)
    with Cons.prems show ?thesis by (cases n) auto
  next
    case None
    obtain fs1 err1 where r: "mkdir_all fs parent = (fs1, err1)" by (cases "mkdir_all fs parent")
    from Cons.IH [OF r Cons.prems(2)] have d1: "wf_fs fs1" .
    show ?thesis
    proof (cases err1)
      case (Some x)
      with Cons.prems None r d1 show ?thesis by simp
    next
      case n1: None
      obtain fs2 err2 where m: "Mkdir fs1 (rev (e # parent)) = (fs2, err2)" by (cases "Mkdir fs1 (rev (e # parent))")
      from Mkdir_wf [OF d1 m] have "wf_fs fs2" .
      with Cons.prems None r n1 m show ?thesis by (auto split: option.splits if_splits)
    qed
  qed
qed

lemma mkdir_all_ok: "mkdir_all fs rp = (fs', None) \<Longrightarrow> is_dir fs' (rev rp)"
proof (cases rp)
  case Nil then show ?thesis by (simp add: is_dir_Nil)
next
  case (Cons e parent)
  assume a: "mkdir_all fs rp = (fs', None)"
  show ?thesis
  proof (cases "Stat fs (rev (e # parent))")
    case (Some n)
    with a Cons show ?thesis by (cases n) (auto simp: is_dir_def)
  next
    case None
    obtain fs1 err1 where r: "mkdir_all fs parent = (fs1, err1)" by (cases "mkdir_all fs parent")
    obtain fs2 err2 where m: "Mkdir fs1 (rev (e # parent)) = (fs2, err2)" by (cases "Mkdir fs1 (rev (e # parent))")
    from a Cons None r m show ?thesis
      by (auto simp: Mkdir_ok split: option.splits if_splits)
  qed
qed

lemma OpenFile_is_dir: "OpenFile fs p = Inr fs' \<Longrightarrow> is_dir fs q \<Longrightarrow> is_dir fs' q"
  by (auto simp: OpenFile_def is_dir_update split: option.splits node.splits)

lemma OpenFile_is_file: "OpenFile fs p = Inr fs' \<Longrightarrow> is_file fs q \<Longrightarrow> is_file fs' q"
  by (auto simp: OpenFile_def is_file_def split: option.splits node.splits)

lemma OpenFile_other: "OpenFile fs p = Inr fs' \<Longrightarrow> q \<noteq> p \<Longrightarrow> nodes fs' q = nodes fs q"
  by (auto simp: OpenFile_def split: option.splits node.splits)

lemma OpenFile_new: "OpenFile fs p = Inr fs' \<Longrightarrow> nodes fs' p = Some (File [])"
  by (auto simp: OpenFile_def split: option.splits node.splits)

lemma OpenFile_parent: "wf_fs fs \<Longrightarrow> OpenFile fs p = Inr fs' \<Longrightarrow> is_dir fs (butlast p)"
  by (auto simp: OpenFile_def wf_fs_def is_dir_def dest!: Stat_File split: option.splits node.splits)

lemma OpenFile_wf: "wf_fs fs \<Longrightarrow> OpenFile fs p = Inr fs' \<Longrightarrow> wf_fs fs'"
proof -
  assume wf: "wf_fs fs" and o: "OpenFile fs p = Inr fs'"
  from o have fs': "fs' = fs\<lparr>nodes := (nodes fs)(p \<mapsto> File [])\<rparr>" and nd: "Stat fs p \<noteq> Some Directory"
    by (auto simp: OpenFile_def split: option.splits node.splits)
  from nd have pne: "p \<noteq> []" by (auto simp: Stat_def)
  have par: "is_dir fs (butlast p)" by (rule OpenFile_parent [OF wf o])
  show "wf_fs fs'" unfolding wf_fs_def
  proof (intro allI impI)
    fix q assume q: "nodes fs' q \<noteq> None"
    show "q \<noteq> [] \<and> is_dir fs' (butlast q)"
    proof (cases "q = p")
      case True
      from par have "is_dir fs' (butlast p)" unfolding fs' by (rule is_dir_update [OF _ nd])
      with True pne show ?thesis by simp
    next
      case False
      with q have "nodes fs q \<noteq> None" by (simp add: fs')
      with wf have "q \<noteq> []" and "is_dir fs (butlast q)" by (auto simp: wf_fs_def)
      then show ?thesis unfolding fs' using is_dir_update [OF _ nd] by simp
    qed
  qed
qed

lemma Write_is_dir: "is_dir fs q \<Longrightarrow> is_dir (Write fs p bytes) q"
  by (auto simp: Write_def is_dir_def Stat_def split: option.splits node.splits if_splits)

lemma Write_is_file: "is_file fs q \<Longrightarrow> is_file (Write fs p bytes) q"
  by (auto simp: Write_def is_file_def split: option.splits node.splits)

lemma Write_other: "q \<noteq> p \<Longrightarrow> nodes (Write fs p bytes) q = nodes fs q"
  by (auto simp: Write_def split: option.splits node.splits)

lemma Write_file: "nodes fs p = Some (File c) \<Longrightarrow> nodes (Write fs p bytes) p = Some (File (c @ bytes))"
  by (auto simp: Write_def)

lemma Write_wf: "wf_fs fs \<Longrightarrow> wf_fs (Write fs p bytes)"
proof -
  assume wf: "wf_fs fs"
  show ?thesis
  proof (cases "\<exists>c. nodes fs p = Some (File c)")
    case False
    then have "Write fs p bytes = fs" by (auto simp: Write_def split: option.splits node.splits)
    with wf show ?thesis by simp
  next
    case True
    then obtain c where c: "nodes fs p = Some (File c)" by blast
    then have w: "Write fs p bytes = fs\<lparr>nodes := (nodes fs)(p \<mapsto> File (c @ bytes))\<rparr>"
      by (simp add: Write_def)
    from c wf have pne: "p \<noteq> []" and par: "is_dir fs (butlast p)" by (auto simp: wf_fs_def)
    have nd: "nodes fs p \<noteq> Some Directory" using c by simp
    show ?thesis unfolding wf_fs_def w
    proof (intro allI impI)
      fix q assume q: "nodes (fs\<lparr>nodes := (nodes fs)(p \<mapsto> File (c @ bytes))\<rparr>) q \<noteq> None"
      show "q \<noteq> [] \<and> is_dir (fs\<lparr>nodes := (nodes fs)(p \<mapsto> File (c @ bytes))\<rparr>) (butlast q)"
      proof (cases "q = p")
        case True
        with pne par is_dir_update_nodes [OF _ nd] show ?thesis by simp
      next
        case False
        with q have "nodes fs q \<noteq> None" by simp
        with wf have "q \<noteq> []" and "is_dir fs (butlast q)" by (auto simp: wf_fs_def)
        then show ?thesis using is_dir_update_nodes [OF _ nd] by simp
      qed
    qed
  qed
qed

text \<open>In a well-formed file system the directories above a directory are directories.\<close>

lemma is_dir_prefix: "wf_fs fs \<Longrightarrow> is_dir fs p \<Longrightarrow> prefix q p \<Longrightarrow> is_dir fs q"
proof (induction p rule: rev_induct)
  case Nil then show ?case by simp
next
  case (snoc x xs)
  show ?case
  proof (cases "q = xs @ [x]")
    case True with snoc.prems show ?thesis by simp
  next
    case False
    with snoc.prems(3) have q: "prefix q xs" by (auto simp: prefix_snoc)
    have "is_dir fs xs"
    proof (cases "nodes fs (xs @ [x]) = None")
      case False
      with snoc.prems(1) show ?thesis by (auto simp: wf_fs_def)
    next
      case True
      with snoc.prems(2) have "xs @ [x] = [''/''] \<or> list_all (\<lambda>e. e = ''..'') (xs @ [x])"
        by (auto simp: is_dir_def Stat_def split: if_splits)
      then show ?thesis
      proof
        assume "xs @ [x] = [''/'']"
        then have "xs = []" by simp
        then show ?thesis by (simp add: is_dir_Nil)
      next
        assume "list_all (\<lambda>e. e = ''..'') (xs @ [x])"
        then show ?thesis by (simp add: is_dir_def Stat_def)
      qed
    qed
    from snoc.IH [OF snoc.prems(1) this q] show ?thesis .
  qed
qed

section \<open>Properties of the archive codec\<close>

lemma MkdirAll_is_dir: "MkdirAll fs p = (fs', err) \<Longrightarrow> is_dir fs q \<Longrightarrow> is_dir fs' q"
  unfolding MkdirAll_def by (rule mkdir_all_is_dir)

lemma MkdirAll_is_file: "MkdirAll fs p = (fs', err) \<Longrightarrow> is_file fs q \<Longrightarrow> is_file fs' q"
  unfolding MkdirAll_def is_file_def by (auto dest: mkdir_all_nodes)

lemma MkdirAll_nodes: "MkdirAll fs p = (fs', err) \<Longrightarrow> nodes fs q = Some n \<Longrightarrow> nodes fs' q = Some n"
  unfolding MkdirAll_def by (rule mkdir_all_nodes)

lemma MkdirAll_wf: "MkdirAll fs p = (fs', err) \<Longrightarrow> wf_fs fs \<Longrightarrow> wf_fs fs'"
  unfolding MkdirAll_def by (rule mkdir_all_wf)

lemma MkdirAll_ok: "MkdirAll fs p = (fs', None) \<Longrightarrow> is_dir fs' p"
  unfolding MkdirAll_def using mkdir_all_ok [of fs "rev p" fs'] by simp

text \<open>What the switch does, case by case.\<close>

lemma extract_entry_other:
  "Typeflag (hdr e) \<noteq> TypeDir \<Longrightarrow> Typeflag (hdr e) \<noteq> TypeReg \<Longrightarrow> extract_entry fs d e = (fs, None)"
  by (cases "Typeflag (hdr e)") (simp_all add: extract_entry_def Let_def)

lemma extract_entry_TypeDir:
  "Typeflag (hdr e) = TypeDir \<Longrightarrow>
   extract_entry fs d e =
     (case MkdirAll fs (path_key (Join d (Name (hdr e)))) of
        (fs', Some err) \<Rightarrow> (fs', Some (Wrap ErrExtract (Some err) []))
      | (fs', None) \<Rightarrow> (fs', None))"
  by (simp add: extract_entry_def Let_def)

lemma extract_entry_TypeReg:
  "Typeflag (hdr e) = TypeReg \<Longrightarrow>
   extract_entry fs d e =
     (case MkdirAll fs (path_key (Dir (Join d (Name (hdr e))))) of
        (fs', Some err) \<Rightarrow> (fs', Some (Wrap ErrExtract (Some err) []))
      | (fs', None) \<Rightarrow>
          (case OpenFile fs' (path_key (Join d (Name (hdr e)))) of
             Inl err \<Rightarrow> (fs', Some (Wrap ErrExtract (Some err) []))
           | Inr f \<Rightarrow>
               (case read_body e of
                  (bytes, Some err) \<Rightarrow> (Write f (path_key (Join d (Name (hdr e)))) bytes, Some (Wrap ErrExtract (Some err) []))
                | (bytes, None) \<Rightarrow> (Write f (path_key (Join d (Name (hdr e)))) bytes, None))))"
  by (simp add: extract_entry_def Let_def)

lemma extract_entry_cases:
  assumes "extract_entry fs d e = (fs', err)"
  obtains (other) "fs' = fs"
  | (dir) err1 where "MkdirAll fs (path_key (Join d (Name (hdr e)))) = (fs', err1)"
  | (reg_mkdir) err1 where "MkdirAll fs (path_key (Dir (Join d (Name (hdr e))))) = (fs', err1)"
  | (reg) fs1 f where "MkdirAll fs (path_key (Dir (Join d (Name (hdr e))))) = (fs1, None)"
      and "OpenFile fs1 (path_key (Join d (Name (hdr e)))) = Inr f"
      and "fs' = Write f (path_key (Join d (Name (hdr e)))) (fst (read_body e))"
      and "err = map_option (\<lambda>x. Wrap ErrExtract (Some x) []) (snd (read_body e))"
      and "Typeflag (hdr e) = TypeReg"
proof (cases "Typeflag (hdr e) = TypeDir")
  case True
  with assms dir show ?thesis
    by (auto simp: extract_entry_TypeDir split: prod.splits option.splits)
next
  case nd: False
  show ?thesis
  proof (cases "Typeflag (hdr e) = TypeReg")
    case False
    with nd assms other show ?thesis by (simp add: extract_entry_other)
  next
    case True
    obtain fs1 err1 where m: "MkdirAll fs (path_key (Dir (Join d (Name (hdr e))))) = (fs1, err1)"
      by (cases "MkdirAll fs (path_key (Dir (Join d (Name (hdr e)))))")
    show ?thesis
    proof (cases err1)
      case (Some x)
      with assms True m reg_mkdir show ?thesis by (simp add: extract_entry_TypeReg)
    next
      case None
      show ?thesis
      proof (cases "OpenFile fs1 (path_key (Join d (Name (hdr e))))")
        case (Inl x)
        with assms True m None reg_mkdir show ?thesis by (simp add: extract_entry_TypeReg)
      next
        case (Inr f)
        with assms True m None reg [of fs1 f] show ?thesis
          by (auto simp: extract_entry_TypeReg split: prod.splits option.splits)
      qed
    qed
  qed
qed

lemma extract_entry_is_dir: "extract_entry fs d e = (fs', err) \<Longrightarrow> is_dir fs q \<Longrightarrow> is_dir fs' q"
  by (erule extract_entry_cases)
     (auto intro: MkdirAll_is_dir OpenFile_is_dir Write_is_dir)

lemma extract_entry_is_file: "extract_entry fs d e = (fs', err) \<Longrightarrow> is_file fs q \<Longrightarrow> is_file fs' q"
  by (erule extract_entry_cases)
     (auto intro: MkdirAll_is_file OpenFile_is_file Write_is_file)

lemma extract_entry_wf: "extract_entry fs d e = (fs', err) \<Longrightarrow> wf_fs fs \<Longrightarrow> wf_fs fs'"
  by (erule extract_entry_cases)
     (auto intro: MkdirAll_wf OpenFile_wf Write_wf)

lemma extract_entry_frame:
  assumes "extract_entry fs d e = (fs', err)" and "nodes fs q = Some n"
    and "q \<noteq> path_key (Join d (Name (hdr e)))"
  shows "nodes fs' q = Some n"
  using assms
  by (elim extract_entry_cases) (auto simp: Write_other OpenFile_other dest: MkdirAll_nodes)

lemma extract_entry_reg:
  assumes "extract_entry fs d e = (fs', None)" and "Typeflag (hdr e) = TypeReg"
  shows "nodes fs' (path_key (Join d (Name (hdr e)))) = Some (File (take (Size (hdr e)) (data e)))
         \<and> length (take (Size (hdr e)) (data e)) = Size (hdr e)"
proof -
  let ?t = "path_key (Join d (Name (hdr e)))"
  obtain fs1 err1 where m: "MkdirAll fs (path_key (Dir (Join d (Name (hdr e))))) = (fs1, err1)"
    by (cases "MkdirAll fs (path_key (Dir (Join d (Name (hdr e)))))")
  from assms m obtain f where o: "OpenFile fs1 ?t = Inr f"
    and r: "read_body e = (take (Size (hdr e)) (data e), None)"
    and w: "fs' = Write f ?t (take (Size (hdr e)) (data e))"
    by (auto simp: extract_entry_TypeReg read_body_def body_len_def isHeaderOnlyType_def
             split: option.splits sum.splits if_splits)
  from r assms(2) have "\<not> truncated e" by (auto simp: read_body_def split: if_splits)
  with assms(2) have len: "Size (hdr e) \<le> length (data e)"
    by (simp add: truncated_def body_len_def isHeaderOnlyType_def)
  from OpenFile_new [OF o] have "nodes f ?t = Some (File [])" .
  from Write_file [OF this] w len show ?thesis by simp
qed

lemma extract_entry_materialises:
  assumes "extract_entry fs d e = (fs', None)"
  shows "materialised fs' d e"
proof (cases "Typeflag (hdr e) = TypeDir")
  case True
  with assms show ?thesis
    by (auto simp: materialised_def extract_entry_TypeDir dest: MkdirAll_ok split: prod.splits option.splits)
next
  case nd: False
  show ?thesis
  proof (cases "Typeflag (hdr e) = TypeReg")
    case True
    with extract_entry_reg [OF assms True] show ?thesis by (simp add: materialised_def is_file_def)
  next
    case False
    with nd show ?thesis by (cases "Typeflag (hdr e)") (simp_all add: materialised_def)
  qed
qed

lemma extract_loop_append:
  "extract_loop d (pre @ post) end (fs, acc) =
     (case extract_loop d pre EndOfArchive (fs, acc) of
        (fs1, Inr names) \<Rightarrow> extract_loop d post end (fs1, names)
      | (fs1, Inl err) \<Rightarrow> (fs1, Inl err))"
proof (induction pre arbitrary: fs acc)
  case Nil show ?case by simp
next
  case (Cons e es)
  show ?case
  proof (cases "extract_entry fs d e")
    case (Pair fs1 err1)
    then show ?thesis using Cons.IH by (cases err1) auto
  qed
qed

lemma extract_loop_is_dir:
  "extract_loop d es end (fs, acc) = (fs', res) \<Longrightarrow> is_dir fs q \<Longrightarrow> is_dir fs' q"
proof (induction es arbitrary: fs acc)
  case Nil then show ?case by (auto split: stream_end.splits)
next
  case (Cons e es)
  obtain fs1 err1 where s: "extract_entry fs d e = (fs1, err1)" by (cases "extract_entry fs d e")
  from extract_entry_is_dir [OF s Cons.prems(2)] have d1: "is_dir fs1 q" .
  from Cons.prems(1) s show ?case
    using Cons.IH [OF _ d1] Cons.prems(2) d1 by (auto split: if_splits option.splits)
qed

lemma extract_loop_is_file:
  "extract_loop d es end (fs, acc) = (fs', res) \<Longrightarrow> is_file fs q \<Longrightarrow> is_file fs' q"
proof (induction es arbitrary: fs acc)
  case Nil then show ?case by (auto split: stream_end.splits)
next
  case (Cons e es)
  obtain fs1 err1 where s: "extract_entry fs d e = (fs1, err1)" by (cases "extract_entry fs d e")
  from extract_entry_is_file [OF s Cons.prems(2)] have d1: "is_file fs1 q" .
  from Cons.prems(1) s show ?case
    using Cons.IH [OF _ d1] Cons.prems(2) d1 by (auto split: if_splits option.splits)
qed

lemma extract_loop_materialised:
  "extract_loop d es end (fs, acc) = (fs', res) \<Longrightarrow> materialised fs d x \<Longrightarrow> materialised fs' d x"
  by (cases "Typeflag (hdr x)")
     (auto simp: materialised_def dest: extract_loop_is_dir extract_loop_is_file)

lemma extract_loop_materialises:
  "extract_loop d es end (fs, acc) = (fs', Inr names) \<Longrightarrow> x \<in> set es \<Longrightarrow> materialised fs' d x"
proof (induction es arbitrary: fs acc)
  case Nil then show ?case by simp
next
  case (Cons e es)
  obtain fs1 err1 where s: "extract_entry fs d e = (fs1, err1)" by (cases "extract_entry fs d e")
  from Cons.prems(1) s have ok: "err1 = None"
    and rest: "extract_loop d es end (fs1, acc @ [Name (hdr e)]) = (fs', Inr names)"
    by (auto split: if_splits option.splits)
  show ?case
  proof (cases "x = e")
    case True
    from s ok have "materialised fs1 d e" by (simp add: extract_entry_materialises)
    with extract_loop_materialised [OF rest] True show ?thesis by simp
  next
    case False
    with Cons.prems(2) have "x \<in> set es" by simp
    from Cons.IH [OF rest this] show ?thesis .
  qed
qed

lemma extract_loop_success:
  "extract_loop d es end (fs, acc) = (fs', Inr names) \<Longrightarrow>
   names = acc @ map (\<lambda>e. Name (hdr e)) es \<and> end = EndOfArchive \<and> list_all (\<lambda>e. \<not> truncated e) es
   \<and> list_all (\<lambda>e. \<not> path_traversal d (Name (hdr e))) es"
proof (induction es arbitrary: fs acc)
  case Nil then show ?case by (auto split: stream_end.splits)
next
  case (Cons e es)
  obtain fs1 err1 where s: "extract_entry fs d e = (fs1, err1)" by (cases "extract_entry fs d e")
  from Cons.prems(1) s have "\<not> truncated e" "\<not> path_traversal d (Name (hdr e))"
    and rest: "extract_loop d es end (fs1, acc @ [Name (hdr e)]) = (fs', Inr names)"
    by (auto split: if_splits option.splits)
  with Cons.IH [OF rest] show ?case by simp
qed

lemma list_loop_well_formed:
  "end = EndOfArchive \<Longrightarrow> list_all (\<lambda>e. \<not> truncated e) es \<Longrightarrow>
   list_loop es end acc = Inr (acc @ map (\<lambda>e. Name (hdr e)) es)"
  by (induction es arbitrary: acc) auto

lemma list_loop_success:
  "list_loop es end acc = Inr names \<Longrightarrow> end = EndOfArchive \<and> list_all (\<lambda>e. \<not> truncated e) es"
  by (induction es arbitrary: acc) (auto split: stream_end.splits if_splits)

text \<open>Entries that are neither directories nor regular files leave the file system as it is.\<close>

lemma extract_loop_filter:
  "extract_loop d es end (fs, acc) = (fs', Inr names) \<Longrightarrow>
   \<exists>names'. extract_loop d (filter (\<lambda>e. Typeflag (hdr e) = TypeDir \<or> Typeflag (hdr e) = TypeReg) es) end (fs, acc')
     = (fs', Inr names')"
proof (induction es arbitrary: fs acc acc')
  case Nil then show ?case by (auto split: stream_end.splits)
next
  case (Cons e es)
  obtain fs1 err1 where s: "extract_entry fs d e = (fs1, err1)" by (cases "extract_entry fs d e")
  from Cons.prems(1) s have ok: "err1 = None" and t: "\<not> truncated e" and g: "\<not> path_traversal d (Name (hdr e))"
    and rest: "extract_loop d es end (fs1, acc @ [Name (hdr e)]) = (fs', Inr names)"
    by (auto split: if_splits option.splits)
  show ?case
  proof (cases "Typeflag (hdr e) = TypeDir \<or> Typeflag (hdr e) = TypeReg")
    case True
    with s ok t g Cons.IH [OF rest, of "acc' @ [Name (hdr e)]"] show ?thesis by auto
  next
    case False
    then have "extract_entry fs d e = (fs, None)" by (simp add: extract_entry_other)
    with s have "fs1 = fs" by simp
    with False Cons.IH [OF rest, of acc'] show ?thesis by auto
  qed
qed

lemma wf_empty_fs: "wf_fs empty_fs"
  by (simp add: wf_fs_def empty_fs_def)

lemma extract_loop_wf:
  "extract_loop d es end (fs, acc) = (fs', res) \<Longrightarrow> wf_fs fs \<Longrightarrow> wf_fs fs'"
proof (induction es arbitrary: fs acc)
  case Nil then show ?case by (auto split: stream_end.splits)
next
  case (Cons e es)
  obtain fs1 err1 where s: "extract_entry fs d e = (fs1, err1)" by (cases "extract_entry fs d e")
  from extract_entry_wf [OF s Cons.prems(2)] have d1: "wf_fs fs1" .
  from Cons.prems(1) s show ?case
    using Cons.IH [OF _ d1] Cons.prems(2) d1 by (auto split: if_splits option.splits)
qed

lemma strict_prefix_butlast: "strict_prefix q t \<Longrightarrow> prefix q (butlast t)"
proof -
  assume a: "strict_prefix q t"
  then have "t \<noteq> []" by auto
  then have "t = butlast t @ [last t]" by simp
  with a show ?thesis by (metis prefix_snoc strict_prefix_def)
qed

text \<open>
  Claim C2, as stated, fails on the code in two points. First, there is no error kind of
  its own for a path traversal: the error is built by \<open>ErrExtract.Wrap\<close>, like the error
  for a stream that is not gzip data, and \<open>errors.Is\<close> recognises it as \<open>ErrExtract\<close>.
  Second, the target is compared with the cleaned destination root, not with the root as
  given: into \<open>/dest/\<close> the entry \<open>a.txt\<close> is extracted, although \<open>/dest/a.txt\<close> is neither
  equal to \<open>/dest/\<close> nor does it start with \<open>/dest/\<close> followed by a separator.
\<close>

theorem Extract_path_traversal_counterexample:
  "snd (Extract (Gzip [reg_entry ''../evil.txt'' ''x''] EndOfArchive) ''/dest'' empty_fs)
     = Inl (Wrap ErrExtract None [AString ''path traversal: ../evil.txt''])
   \<and> errors_Is (Wrap ErrExtract None [AString ''path traversal: ../evil.txt'']) ErrExtract
   \<and> snd (Extract (NotGzip (Foreign ''gzip: invalid header'')) ''/dest'' empty_fs)
     = Inl (Wrap ErrExtract (Some (Foreign ''gzip: invalid header'')) [])
   \<and> \<not> prefix (''/dest/'' @ [Separator]) (Clean (Join ''/dest/'' ''a.txt''))
   \<and> Clean (Join ''/dest/'' ''a.txt'') \<noteq> ''/dest/''
   \<and> snd (Extract (Gzip [reg_entry ''a.txt'' ''x''] EndOfArchive) ''/dest/'' empty_fs) = Inr [''a.txt'']
   \<and> nodes (fst (Extract (Gzip [reg_entry ''a.txt'' ''x''] EndOfArchive) ''/dest/'' empty_fs))
        [''/'', ''dest'', ''a.txt''] = Some (File ''x'')"
  by code_simp

text \<open>
  Claim C2, amended. When \<open>Extract\<close> reaches an entry whose target, joined to the
  destination root and cleaned, is neither equal to the cleaned destination root nor
  starts with the cleaned destination root followed by the separator, it returns at
  once: the file system is as the entries before left it, nothing of this entry or of
  the later ones is written, and the error is \<open>ErrExtract.Wrap(nil, "path traversal: " +
  name)\<close>: of kind \<open>ErrExtract\<close>, with the name of the entry in its message.
\<close>

theorem Extract_path_traversal:
  assumes "Extract (Gzip pre EndOfArchive) destDir fs = (fs_pre, Inr names)"
    and "\<not> prefix (Clean destDir @ [Separator]) (Clean (Join destDir (Name (hdr e))))"
    and "Clean (Join destDir (Name (hdr e))) \<noteq> Clean destDir"
  shows "Extract (Gzip (pre @ e # rest) end) destDir fs
           = (fs_pre, Inl (Wrap ErrExtract None [AString (''path traversal: '' @ Name (hdr e))]))
         \<and> errors_Is (Wrap ErrExtract None [AString (''path traversal: '' @ Name (hdr e))]) ErrExtract
         \<and> Error (Wrap ErrExtract None [AString (''path traversal: '' @ Name (hdr e))])
             = ''failed to extract: path traversal: '' @ Name (hdr e) @ '': failed to extract''"
proof -
  from assms(2,3) have g: "path_traversal destDir (Name (hdr e))"
    by (simp add: path_traversal_def HasPrefix_def Let_def)
  from assms(1) have "extract_loop destDir pre EndOfArchive (fs, []) = (fs_pre, Inr names)"
    by (simp add: Extract_def)
  with g have "Extract (Gzip (pre @ e # rest) end) destDir fs
           = (fs_pre, Inl (Wrap ErrExtract None [AString (''path traversal: '' @ Name (hdr e))]))"
    by (simp add: Extract_def extract_loop_append)
  then show ?thesis by (simp add: Wrap_def)
qed

theorem Extract_path_traversal_witness:
  "snd (Extract (Gzip [dir_entry ''src'', reg_entry ''src/a.txt'' ''aaa''] EndOfArchive) ''/dest'' empty_fs)
     = Inr [''src'', ''src/a.txt'']
   \<and> \<not> prefix (Clean ''/dest'' @ [Separator]) (Clean (Join ''/dest'' ''../evil.txt''))
   \<and> Clean (Join ''/dest'' ''../evil.txt'') \<noteq> Clean ''/dest''
   \<and> Extract (Gzip ([dir_entry ''src'', reg_entry ''src/a.txt'' ''aaa'']
                     @ reg_entry ''../evil.txt'' ''x'' # [reg_entry ''src/b.txt'' ''bbb'']) EndOfArchive) ''/dest'' empty_fs
     = (fst (Extract (Gzip [dir_entry ''src'', reg_entry ''src/a.txt'' ''aaa''] EndOfArchive) ''/dest'' empty_fs),
        Inl (Wrap ErrExtract None [AString ''path traversal: ../evil.txt'']))
   \<and> nodes (fst (Extract (Gzip ([dir_entry ''src'', reg_entry ''src/a.txt'' ''aaa'']
                     @ reg_entry ''../evil.txt'' ''x'' # [reg_entry ''src/b.txt'' ''bbb'']) EndOfArchive) ''/dest'' empty_fs))
        [''/'', ''dest'', ''src'', ''b.txt''] = None
   \<and> Error (Wrap ErrExtract None [AString ''path traversal: ../evil.txt''])
       = ''failed to extract: path traversal: ../evil.txt: failed to extract''"
proof -
  let ?pre = "[dir_entry ''src'', reg_entry ''src/a.txt'' ''aaa'']"
  let ?e = "reg_entry ''../evil.txt'' ''x''"
  let ?rest = "[reg_entry ''src/b.txt'' ''bbb'']"
  have 1: "snd (Extract (Gzip ?pre EndOfArchive) ''/dest'' empty_fs) = Inr [''src'', ''src/a.txt'']"
    by code_simp
  then have x1: "Extract (Gzip ?pre EndOfArchive) ''/dest'' empty_fs
      = (fst (Extract (Gzip ?pre EndOfArchive) ''/dest'' empty_fs), Inr [''src'', ''src/a.txt''])"
    by (simp add: prod_eq_iff)
  have n: "Name (hdr ?e) = ''../evil.txt''" by (simp add: reg_entry_def)
  have 2: "\<not> prefix (Clean ''/dest'' @ [Separator]) (Clean (Join ''/dest'' ''../evil.txt''))"
    by code_simp
  have 3: "Clean (Join ''/dest'' ''../evil.txt'') \<noteq> Clean ''/dest''"
    by code_simp
  have 4: "nodes (fst (Extract (Gzip ?pre EndOfArchive) ''/dest'' empty_fs)) [''/'', ''dest'', ''src'', ''b.txt''] = None"
    by code_simp
  from Extract_path_traversal [OF x1, of ?e ?rest EndOfArchive] 2 3 n
  have "Extract (Gzip (?pre @ ?e # ?rest) EndOfArchive) ''/dest'' empty_fs
     = (fst (Extract (Gzip ?pre EndOfArchive) ''/dest'' empty_fs),
        Inl (Wrap ErrExtract None [AString ''path traversal: ../evil.txt'']))
     \<and> Error (Wrap ErrExtract None [AString ''path traversal: ../evil.txt''])
       = ''failed to extract: path traversal: ../evil.txt: failed to extract''"
    by simp
  with 1 2 3 4 show ?thesis by simp
qed

text \<open>
  Claim C7. When \<open>Extract\<close> has processed a regular-file entry (here the last entry of a
  stream that it extracts without error), every directory above the target exists, the
  target is a regular file whose content is the first \<open>Size\<close> bytes of the body in the
  stream, these are exactly \<open>Size\<close> bytes, and nothing of what a file at that path held
  before is left.
\<close>

theorem Extract_regular_file:
  assumes "wf_fs fs"
    and "Extract (Gzip (pre @ [e]) EndOfArchive) destDir fs = (fs', Inr names)"
    and "Typeflag (hdr e) = TypeReg"
  shows "(\<forall>q. strict_prefix q (path_key (Join destDir (Name (hdr e)))) \<longrightarrow> is_dir fs' q)
       \<and> is_dir fs' (path_key (Dir (Join destDir (Name (hdr e)))))
       \<and> nodes fs' (path_key (Join destDir (Name (hdr e)))) = Some (File (take (Size (hdr e)) (data e)))
       \<and> length (take (Size (hdr e)) (data e)) = Size (hdr e)"
proof -
  let ?t = "path_key (Join destDir (Name (hdr e)))"
  let ?dir = "path_key (Dir (Join destDir (Name (hdr e))))"
  obtain fs1 r1 where p: "extract_loop destDir pre EndOfArchive (fs, []) = (fs1, r1)"
    by (cases "extract_loop destDir pre EndOfArchive (fs, [])")
  from extract_loop_wf [OF p assms(1)] have wf1: "wf_fs fs1" .
  from assms(2) p obtain names1 where r1: "r1 = Inr names1"
    and l: "extract_loop destDir [e] EndOfArchive (fs1, names1) = (fs', Inr names)"
    by (cases r1) (auto simp: Extract_def extract_loop_append)
  from l have s: "extract_entry fs1 destDir e = (fs', None)"
    by (auto split: if_splits prod.splits option.splits)
  from extract_entry_wf [OF s wf1] have wf': "wf_fs fs'" .
  note reg = extract_entry_reg [OF s assms(3)]
  obtain fs2 err2 where m: "MkdirAll fs1 ?dir = (fs2, err2)" by (cases "MkdirAll fs1 ?dir")
  from s m assms(3) obtain f where e2: "err2 = None" and o: "OpenFile fs2 ?t = Inr f"
    and w: "fs' = Write f ?t (fst (read_body e))"
    by (auto simp: extract_entry_TypeReg split: option.splits sum.splits prod.splits)
  from MkdirAll_wf [OF m wf1] have wf2: "wf_fs fs2" .
  from m e2 have "is_dir fs2 ?dir" by (simp add: MkdirAll_ok)
  then have dir: "is_dir fs' ?dir" unfolding w by (intro Write_is_dir OpenFile_is_dir [OF o])
  from OpenFile_parent [OF wf2 o] have "is_dir fs2 (butlast ?t)" .
  then have par: "is_dir fs' (butlast ?t)" unfolding w by (intro Write_is_dir OpenFile_is_dir [OF o])
  have "is_dir fs' q" if "strict_prefix q ?t" for q
    using is_dir_prefix [OF wf' par strict_prefix_butlast [OF that]] .
  with dir reg show ?thesis by blast
qed

theorem Extract_regular_file_witness:
  "wf_fs empty_fs
   \<and> snd (Extract (Gzip ([reg_entry ''src/a.txt'' ''old content''] @ [reg_entry ''src/a.txt'' ''new''])
             EndOfArchive) ''/dest'' empty_fs) = Inr [''src/a.txt'', ''src/a.txt'']
   \<and> Typeflag (hdr (reg_entry ''src/a.txt'' ''new'')) = TypeReg
   \<and> nodes (fst (Extract (Gzip [reg_entry ''src/a.txt'' ''old content''] EndOfArchive) ''/dest'' empty_fs))
        [''/'', ''dest'', ''src'', ''a.txt''] = Some (File ''old content'')
   \<and> nodes (fst (Extract (Gzip ([reg_entry ''src/a.txt'' ''old content''] @ [reg_entry ''src/a.txt'' ''new''])
             EndOfArchive) ''/dest'' empty_fs)) [''/'', ''dest'', ''src'', ''a.txt''] = Some (File ''new'')
   \<and> is_dir (fst (Extract (Gzip ([reg_entry ''src/a.txt'' ''old content''] @ [reg_entry ''src/a.txt'' ''new''])
             EndOfArchive) ''/dest'' empty_fs)) [''/'', ''dest'', ''src'']
   \<and> is_dir (fst (Extract (Gzip ([reg_entry ''src/a.txt'' ''old content''] @ [reg_entry ''src/a.txt'' ''new''])
             EndOfArchive) ''/dest'' empty_fs)) [''/'', ''dest'']"
proof -
  let ?pre = "[reg_entry ''src/a.txt'' ''old content'']"
  let ?e = "reg_entry ''src/a.txt'' ''new''"
  let ?X = "Extract (Gzip (?pre @ [?e]) EndOfArchive) ''/dest'' empty_fs"
  have 1: "snd ?X = Inr [''src/a.txt'', ''src/a.txt'']" by code_simp
  then have x1: "?X = (fst ?X, Inr [''src/a.txt'', ''src/a.txt''])" by (simp add: prod_eq_iff)
  have 2: "Typeflag (hdr ?e) = TypeReg" by (simp add: reg_entry_def)
  have 3: "nodes (fst (Extract (Gzip ?pre EndOfArchive) ''/dest'' empty_fs))
        [''/'', ''dest'', ''src'', ''a.txt''] = Some (File ''old content'')" by code_simp
  have k: "path_key (Join ''/dest'' (Name (hdr ?e))) = [''/'', ''dest'', ''src'', ''a.txt'']" by code_simp
  have s: "take (Size (hdr ?e)) (data ?e) = ''new''" by code_simp
  have p1: "strict_prefix [''/'', ''dest'', ''src''] [''/'', ''dest'', ''src'', ''a.txt'']" by (simp add: strict_prefix_def)
  have p2: "strict_prefix [''/'', ''dest''] [''/'', ''dest'', ''src'', ''a.txt'']" by (simp add: strict_prefix_def)
  from Extract_regular_file [OF wf_empty_fs x1 2] k s p1 p2
  have "nodes (fst ?X) [''/'', ''dest'', ''src'', ''a.txt''] = Some (File ''new'')
      \<and> is_dir (fst ?X) [''/'', ''dest'', ''src''] \<and> is_dir (fst ?X) [''/'', ''dest'']"
    by simp
  with wf_empty_fs 1 2 3 show ?thesis by simp
qed

text \<open>
  Claim C8. When \<open>Extract\<close> returns a name list, the list holds the name of every entry in
  stream order, so also the name of every symbolic-link entry; the switch leaves the file
  system as it is for a symbolic-link entry; and the file system afterwards is the one
  that the directory and regular-file entries alone produce.
\<close>

theorem Extract_skips_symlink:
  assumes "Extract (Gzip es end) destDir fs = (fs', Inr names)"
  shows "names = map (\<lambda>e. Name (hdr e)) es
       \<and> (\<forall>e \<in> set es. Typeflag (hdr e) = TypeSymlink \<longrightarrow>
             Name (hdr e) \<in> set names \<and> (\<forall>fs0. extract_entry fs0 destDir e = (fs0, None)))
       \<and> fst (Extract (Gzip (filter (\<lambda>e. Typeflag (hdr e) = TypeDir \<or> Typeflag (hdr e) = TypeReg) es) end) destDir fs) = fs'"
proof -
  from assms have l: "extract_loop destDir es end (fs, []) = (fs', Inr names)"
    by (simp add: Extract_def)
  from extract_loop_success [OF l] have n: "names = map (\<lambda>e. Name (hdr e)) es" by simp
  from extract_loop_filter [OF l, of "[]"] have
    "fst (Extract (Gzip (filter (\<lambda>e. Typeflag (hdr e) = TypeDir \<or> Typeflag (hdr e) = TypeReg) es) end) destDir fs) = fs'"
    by (auto simp: Extract_def)
  with n show ?thesis by (auto simp: extract_entry_other)
qed

theorem Extract_skips_symlink_witness:
  "snd (Extract (Gzip [dir_entry ''src'', symlink_entry ''src/link'' ''a.txt'', reg_entry ''src/a.txt'' ''aaa'']
          EndOfArchive) ''/dest'' empty_fs) = Inr [''src'', ''src/link'', ''src/a.txt'']
   \<and> Typeflag (hdr (symlink_entry ''src/link'' ''a.txt'')) = TypeSymlink
   \<and> path_key (Join ''/dest'' ''src/link'') = [''/'', ''dest'', ''src'', ''link'']
   \<and> nodes (fst (Extract (Gzip [dir_entry ''src'', symlink_entry ''src/link'' ''a.txt'', reg_entry ''src/a.txt'' ''aaa'']
          EndOfArchive) ''/dest'' empty_fs)) [''/'', ''dest'', ''src'', ''link''] = None
   \<and> extract_entry empty_fs ''/dest'' (symlink_entry ''src/link'' ''a.txt'') = (empty_fs, None)
   \<and> fst (Extract (Gzip [dir_entry ''src'', reg_entry ''src/a.txt'' ''aaa''] EndOfArchive) ''/dest'' empty_fs)
     = fst (Extract (Gzip [dir_entry ''src'', symlink_entry ''src/link'' ''a.txt'', reg_entry ''src/a.txt'' ''aaa'']
          EndOfArchive) ''/dest'' empty_fs)"
proof -
  let ?es = "[dir_entry ''src'', symlink_entry ''src/link'' ''a.txt'', reg_entry ''src/a.txt'' ''aaa'']"
  let ?X = "Extract (Gzip ?es EndOfArchive) ''/dest'' empty_fs"
  have 1: "snd ?X = Inr [''src'', ''src/link'', ''src/a.txt'']" by code_simp
  then have x1: "?X = (fst ?X, Inr [''src'', ''src/link'', ''src/a.txt''])" by (simp add: prod_eq_iff)
  have 2: "Typeflag (hdr (symlink_entry ''src/link'' ''a.txt'')) = TypeSymlink" by (simp add: symlink_entry_def)
  have 3: "path_key (Join ''/dest'' ''src/link'') = [''/'', ''dest'', ''src'', ''link'']" by code_simp
  have 4: "nodes (fst ?X) [''/'', ''dest'', ''src'', ''link''] = None" by code_simp
  have f: "filter (\<lambda>e. Typeflag (hdr e) = TypeDir \<or> Typeflag (hdr e) = TypeReg) ?es
           = [dir_entry ''src'', reg_entry ''src/a.txt'' ''aaa'']"
    by (simp add: dir_entry_def reg_entry_def symlink_entry_def)
  from Extract_skips_symlink [OF x1] 2
  have "extract_entry empty_fs ''/dest'' (symlink_entry ''src/link'' ''a.txt'') = (empty_fs, None)
      \<and> fst (Extract (Gzip (filter (\<lambda>e. Typeflag (hdr e) = TypeDir \<or> Typeflag (hdr e) = TypeReg) ?es) EndOfArchive) ''/dest'' empty_fs) = fst ?X"
    by simp
  with 1 2 3 4 show ?thesis unfolding f by simp
qed

text \<open>
  Claim C9. When \<open>Extract\<close> returns an error, whatever the entries before the failing one
  have materialised is still there: for every prefix of the stream that extracts without
  error, each of its directory and regular-file entries is materialised in the file
  system that \<open>Extract\<close> leaves behind, and every directory and every file that existed
  after the prefix still exists.
\<close>

theorem Extract_no_rollback:
  assumes "Extract (Gzip (pre @ post) end) destDir fs = (fs', Inl err)"
    and "Extract (Gzip pre EndOfArchive) destDir fs = (fs_pre, Inr names)"
  shows "(\<forall>x \<in> set pre. materialised fs_pre destDir x \<and> materialised fs' destDir x)
       \<and> (\<forall>q. is_dir fs_pre q \<longrightarrow> is_dir fs' q)
       \<and> (\<forall>q. is_file fs_pre q \<longrightarrow> is_file fs' q)"
proof -
  from assms(2) have p: "extract_loop destDir pre EndOfArchive (fs, []) = (fs_pre, Inr names)"
    by (simp add: Extract_def)
  with assms(1) have r: "extract_loop destDir post end (fs_pre, names) = (fs', Inl err)"
    by (simp add: Extract_def extract_loop_append)
  have "materialised fs_pre destDir x \<and> materialised fs' destDir x" if "x \<in> set pre" for x
    using extract_loop_materialises [OF p that] extract_loop_materialised [OF r] by blast
  with extract_loop_is_dir [OF r] extract_loop_is_file [OF r] show ?thesis by blast
qed

theorem Extract_no_rollback_witness:
  "snd (Extract (Gzip ([dir_entry ''src'', reg_entry ''src/a.txt'' ''aaa'']
                       @ [reg_entry ''src/b.txt'' ''bbb'', reg_entry ''../evil.txt'' ''x'']) EndOfArchive) ''/dest'' empty_fs)
     = Inl (Wrap ErrExtract None [AString ''path traversal: ../evil.txt''])
   \<and> snd (Extract (Gzip [dir_entry ''src'', reg_entry ''src/a.txt'' ''aaa''] EndOfArchive) ''/dest'' empty_fs)
     = Inr [''src'', ''src/a.txt'']
   \<and> materialised (fst (Extract (Gzip ([dir_entry ''src'', reg_entry ''src/a.txt'' ''aaa'']
                       @ [reg_entry ''src/b.txt'' ''bbb'', reg_entry ''../evil.txt'' ''x'']) EndOfArchive) ''/dest'' empty_fs))
        ''/dest'' (dir_entry ''src'')
   \<and> materialised (fst (Extract (Gzip ([dir_entry ''src'', reg_entry ''src/a.txt'' ''aaa'']
                       @ [reg_entry ''src/b.txt'' ''bbb'', reg_entry ''../evil.txt'' ''x'']) EndOfArchive) ''/dest'' empty_fs))
        ''/dest'' (reg_entry ''src/a.txt'' ''aaa'')
   \<and> nodes (fst (Extract (Gzip ([dir_entry ''src'', reg_entry ''src/a.txt'' ''aaa'']
                       @ [reg_entry ''src/b.txt'' ''bbb'', reg_entry ''../evil.txt'' ''x'']) EndOfArchive) ''/dest'' empty_fs))
        [''/'', ''dest'', ''src'', ''a.txt''] = Some (File ''aaa'')
   \<and> nodes (fst (Extract (Gzip ([dir_entry ''src'', reg_entry ''src/a.txt'' ''aaa'']
                       @ [reg_entry ''src/b.txt'' ''bbb'', reg_entry ''../evil.txt'' ''x'']) EndOfArchive) ''/dest'' empty_fs))
        [''/'', ''dest'', ''src'', ''b.txt''] = Some (File ''bbb'')"
proof -
  let ?pre = "[dir_entry ''src'', reg_entry ''src/a.txt'' ''aaa'']"
  let ?post = "[reg_entry ''src/b.txt'' ''bbb'', reg_entry ''../evil.txt'' ''x'']"
  let ?X = "Extract (Gzip (?pre @ ?post) EndOfArchive) ''/dest'' empty_fs"
  let ?P = "Extract (Gzip ?pre EndOfArchive) ''/dest'' empty_fs"
  have 1: "snd ?X = Inl (Wrap ErrExtract None [AString ''path traversal: ../evil.txt''])" by code_simp
  then have x1: "?X = (fst ?X, Inl (Wrap ErrExtract None [AString ''path traversal: ../evil.txt'']))"
    by (simp add: prod_eq_iff)
  have 2: "snd ?P = Inr [''src'', ''src/a.txt'']" by code_simp
  then have x2: "?P = (fst ?P, Inr [''src'', ''src/a.txt''])" by (simp add: prod_eq_iff)
  have 3: "nodes (fst ?X) [''/'', ''dest'', ''src'', ''a.txt''] = Some (File ''aaa'')" by code_simp
  have 4: "nodes (fst ?X) [''/'', ''dest'', ''src'', ''b.txt''] = Some (File ''bbb'')" by code_simp
  from Extract_no_rollback [OF x1 x2]
  have "materialised (fst ?X) ''/dest'' (dir_entry ''src'')
      \<and> materialised (fst ?X) ''/dest'' (reg_entry ''src/a.txt'' ''aaa'')"
    by simp
  with 1 2 3 4 show ?thesis by simp
qed

text \<open>
  Claim C10. For a well-formed archive stream, when \<open>Extract\<close> succeeds, \<open>List\<close> on the
  same stream returns the same names in the same order.
\<close>

theorem List_names_eq_Extract_names:
  assumes "well_formed r"
    and "Extract r destDir fs = (fs', Inr names)"
  shows "List r = Inr names"
proof (cases r)
  case (NotGzip x)
  with assms(1) show ?thesis by (simp add: well_formed_def)
next
  case (Gzip es fin)
  with assms(2) have l: "extract_loop destDir es fin (fs, []) = (fs', Inr names)"
    by (simp add: Extract_def)
  from extract_loop_success [OF l] list_loop_well_formed [of fin es "[]"] Gzip
  show ?thesis by (simp add: List_def)
qed

theorem List_names_eq_Extract_names_witness:
  "well_formed (Gzip [dir_entry ''src'', symlink_entry ''src/link'' ''a.txt'', reg_entry ''src/a.txt'' ''aaa''] EndOfArchive)
   \<and> snd (Extract (Gzip [dir_entry ''src'', symlink_entry ''src/link'' ''a.txt'', reg_entry ''src/a.txt'' ''aaa'']
          EndOfArchive) ''/dest'' empty_fs) = Inr [''src'', ''src/link'', ''src/a.txt'']
   \<and> List (Gzip [dir_entry ''src'', symlink_entry ''src/link'' ''a.txt'', reg_entry ''src/a.txt'' ''aaa''] EndOfArchive)
       = Inr [''src'', ''src/link'', ''src/a.txt'']"
proof -
  let ?r = "Gzip [dir_entry ''src'', symlink_entry ''src/link'' ''a.txt'', reg_entry ''src/a.txt'' ''aaa''] EndOfArchive"
  let ?X = "Extract ?r ''/dest'' empty_fs"
  have w: "well_formed ?r" by code_simp
  have 1: "snd ?X = Inr [''src'', ''src/link'', ''src/a.txt'']" by code_simp
  then have x1: "?X = (fst ?X, Inr [''src'', ''src/link'', ''src/a.txt''])" by (simp add: prod_eq_iff)
  from List_names_eq_Extract_names [OF w x1] w 1 show ?thesis by simp
qed

lemma Extract_success_well_formed:
  "Extract r destDir fs = (fs', Inr names) \<Longrightarrow> well_formed r"
  by (cases r) (auto simp: Extract_def well_formed_def dest: extract_loop_success)

section \<open>Properties of Create\<close>

lemma WriteHeader_ok:
  "WriteHeader tw h = (tw', None) \<Longrightarrow>
   pending tw = 0 \<and> tw' = \<lparr>written = written tw @ [\<lparr>hdr = h, data = []\<rparr>], pending = body_len h\<rparr>"
  by (auto simp: WriteHeader_def split: if_splits)

lemma Copy_to_tar_ok:
  "Copy_to_tar \<lparr>written = ws @ [\<lparr>hdr = h, data = []\<rparr>], pending = k\<rparr> f = (tw', None) \<Longrightarrow>
   read_error f = None \<and> length (content f) \<le> k
   \<and> tw' = \<lparr>written = ws @ [\<lparr>hdr = h, data = content f\<rparr>], pending = k - length (content f)\<rparr>"
  by (auto simp: Copy_to_tar_def tar_Write_def split: if_splits)

lemma walk_fn_ok:
  assumes "walk_fn src tw visit = (tw', None)"
  shows "pending tw = 0 \<and> (\<exists>e. written tw' = written tw @ [e] \<and> appended src visit e
           \<and> pending tw' = body_len (hdr e) - length (data e))"
proof -
  obtain path r where v: "visit = (path, r)" by (cases visit)
  from assms v obtain info where r: "r = Inr info"
    by (cases r) (auto simp: walk_fn_def)
  from assms v r obtain link where l: "(if fi_Mode info = ModeSymlink then Readlink src path else Inr []) = Inr link"
    by (cases "if fi_Mode info = ModeSymlink then Readlink src path else Inr []") (auto simp: walk_fn_def)
  from assms v r l obtain h where h: "FileInfoHeader info link = Inr h"
    by (cases "FileInfoHeader info link") (auto simp: walk_fn_def)
  obtain tw1 e1 where w: "WriteHeader tw (h\<lparr>Name := path\<rparr>) = (tw1, e1)"
    by (cases "WriteHeader tw (h\<lparr>Name := path\<rparr>)")
  from assms v r l h w have e1: "e1 = None"
    by (cases e1) (auto simp: walk_fn_def)
  from WriteHeader_ok [OF w [unfolded e1]]
  have p0: "pending tw = 0"
    and tw1: "tw1 = \<lparr>written = written tw @ [\<lparr>hdr = h\<lparr>Name := path\<rparr>, data = []\<rparr>], pending = body_len (h\<lparr>Name := path\<rparr>)\<rparr>"
    by simp_all
  show ?thesis
  proof (cases "fi_Mode info = ModeDir \<or> fi_Mode info = ModeSymlink")
    case True
    with assms v r l h w e1 have "tw' = tw1" by (auto simp: walk_fn_def)
    moreover from True h have "body_len (h\<lparr>Name := path\<rparr>) = 0"
      by (auto simp: FileInfoHeader_def body_len_def isHeaderOnlyType_def)
    moreover from True h have "fi_Mode info = ModeDir \<Longrightarrow> Typeflag h = TypeDir"
      by (auto simp: FileInfoHeader_def)
    ultimately show ?thesis using p0 tw1 v r True
      by (auto simp: appended_def)
  next
    case False
    with assms v r l h w e1 obtain f where o: "Open src path = Inr f"
      and c: "Copy_to_tar tw1 f = (tw', None)"
      by (cases "Open src path") (auto simp: walk_fn_def)
    from Copy_to_tar_ok [OF c [unfolded tw1]]
    have re: "read_error f = None" and len: "length (content f) \<le> body_len (h\<lparr>Name := path\<rparr>)"
      and tw': "tw' = \<lparr>written = written tw @ [\<lparr>hdr = h\<lparr>Name := path\<rparr>, data = content f\<rparr>],
                       pending = body_len (h\<lparr>Name := path\<rparr>) - length (content f)\<rparr>"
      by simp_all
    from re have f: "f = \<lparr>content = content f, read_error = None\<rparr>" by simp
    have "fi_Mode info = ModeRegular \<Longrightarrow> Typeflag h = TypeReg \<and> Size h = fi_Size info"
      using h by (auto simp: FileInfoHeader_def)
    with p0 tw' v r False len o f show ?thesis
      by (cases "fi_Mode info") (auto simp: appended_def)
  qed
qed

lemma appended_archived:
  "appended src visit e \<Longrightarrow> body_len (hdr e) - length (data e) = 0 \<Longrightarrow> archived src visit e"
  by (cases visit) (auto simp: appended_def archived_def split: sum.splits)

lemma walk_loop_pending:
  "walk_loop src tw visits = (tw', None) \<Longrightarrow> pending tw' = 0 \<Longrightarrow> pending tw = 0"
  by (cases visits) (auto dest: walk_fn_ok split: prod.splits option.splits)

lemma walk_loop_ok:
  "walk_loop src tw visits = (tw', None) \<Longrightarrow> pending tw' = 0 \<Longrightarrow>
   \<exists>es. written tw' = written tw @ es \<and> list_all2 (archived src) visits es"
proof (induction visits arbitrary: tw)
  case Nil then show ?case by simp
next
  case (Cons v vs)
  obtain tw1 e1 where s: "walk_fn src tw v = (tw1, e1)" by (cases "walk_fn src tw v")
  with Cons.prems(1) have e1: "e1 = None" and rest: "walk_loop src tw1 vs = (tw', None)"
    by (auto split: option.splits)
  from walk_fn_ok [OF s [unfolded e1]] obtain e where w: "written tw1 = written tw @ [e]"
    and a: "appended src v e" and p: "pending tw1 = body_len (hdr e) - length (data e)"
    by blast
  from walk_loop_pending [OF rest Cons.prems(2)] p have "body_len (hdr e) - length (data e) = 0" by simp
  with a have ar: "archived src v e" by (rule appended_archived)
  from Cons.IH [OF rest Cons.prems(2)] obtain es where "written tw' = written tw1 @ es"
    and "list_all2 (archived src) vs es" by blast
  with w ar have "written tw' = written tw @ (e # es) \<and> list_all2 (archived src) (v # vs) (e # es)"
    by simp
  then show ?case by blast
qed

lemma add_paths_pending:
  "add_paths src tw ps = (tw', None) \<Longrightarrow> pending tw' = 0 \<Longrightarrow> pending tw = 0"
proof (induction ps arbitrary: tw)
  case Nil then show ?case by simp
next
  case (Cons p ps)
  obtain tw1 e1 where s: "addPath src tw p = (tw1, e1)" by (cases "addPath src tw p")
  with Cons.prems(1) have e1: "e1 = None" and rest: "add_paths src tw1 ps = (tw', None)"
    by (auto split: option.splits)
  from Cons.IH [OF rest Cons.prems(2)] have "pending tw1 = 0" .
  with s e1 show ?case by (auto simp: addPath_def dest: walk_loop_pending)
qed

lemma add_paths_ok:
  "add_paths src tw ps = (tw', None) \<Longrightarrow> pending tw' = 0 \<Longrightarrow>
   \<exists>es. written tw' = written tw @ es \<and> list_all2 (archived src) (concat (map (Walk src) ps)) es"
proof (induction ps arbitrary: tw)
  case Nil then show ?case by simp
next
  case (Cons p ps)
  obtain tw1 e1 where s: "addPath src tw p = (tw1, e1)" by (cases "addPath src tw p")
  with Cons.prems(1) have e1: "e1 = None" and rest: "add_paths src tw1 ps = (tw', None)"
    by (auto split: option.splits)
  from add_paths_pending [OF rest Cons.prems(2)] have p1: "pending tw1 = 0" .
  from s e1 have "walk_loop src tw (Walk src p) = (tw1, None)" by (simp add: addPath_def)
  from walk_loop_ok [OF this p1] obtain es1 where 1: "written tw1 = written tw @ es1"
    and 2: "list_all2 (archived src) (Walk src p) es1" by blast
  from Cons.IH [OF rest Cons.prems(2)] obtain es where 3: "written tw' = written tw1 @ es"
    and 4: "list_all2 (archived src) (concat (map (Walk src) ps)) es" by blast
  from 1 2 3 4 have "written tw' = written tw @ (es1 @ es)
      \<and> list_all2 (archived src) (concat (map (Walk src) (p # ps))) (es1 @ es)"
    by (simp add: list_all2_appendI)
  then show ?case by blast
qed

lemma Create_ok:
  assumes "Create src paths = (archive, None)"
  shows "\<exists>es. archive = Gzip es EndOfArchive \<and> list_all2 (archived src) (concat (map (Walk src) paths)) es"
proof -
  obtain tw e where a: "add_paths src \<lparr>written = [], pending = 0\<rparr> paths = (tw, e)"
    by (cases "add_paths src \<lparr>written = [], pending = 0\<rparr> paths")
  from assms a have e: "e = None" and c: "tar_Close tw = None" and ar: "archive = Gzip (written tw) EndOfArchive"
    by (auto simp: Create_def split: option.splits)
  from c have "pending tw = 0" by (simp add: tar_Close_def split: if_splits)
  from add_paths_ok [OF a [unfolded e] this] ar show ?thesis by simp
qed

section \<open>Properties of the create command\<close>

text \<open>An error of the producer reaches the consumer through the pipe.\<close>

lemma producer_error_fails_consumer:
  "\<exists>err. Encrypt f \<lparr>content = piped, read_error = Some perr\<rparr> recipients = Inl err"
  by (auto simp: Encrypt_def split: sum.splits option.splits)

text \<open>
  Claim C4. With at least three arguments, the recipients fetched, the output file
  created and its size read, \<open>Run\<close> returns the error of the consumer (\<open>crypt.Encrypt\<close>
  reading the pipe) if it has one; otherwise the error of the producer (\<open>archive.Create\<close>,
  received from \<open>errCh\<close>) if it has one; otherwise the result. The size in the result is
  read by \<open>f.Stat()\<close> after the pipeline; an error of \<open>f.Stat()\<close> is returned as it is.
\<close>

theorem Run_pipeline_result:
  assumes "3 \<le> length args"
    and "KeyFetcher config (args ! 0) = Inr recipients"
    and "os_Create config (args ! 1) = Inr f"
    and "f_Stat config = Inr n"
    and "Create (files config) (drop 2 args) = (piped, producer)"
    and "Encrypt f \<lparr>content = piped, read_error = producer\<rparr> recipients = consumer"
  shows "Run config args =
           (case consumer of
              Inl err \<Rightarrow> Inl err
            | Inr encrypted \<Rightarrow>
                (case producer of
                   Some err \<Rightarrow> Inl err
                 | None \<Rightarrow> Inr \<lparr>File_name = args ! 1, Recipients = length recipients, Size_bytes = n\<rparr>))"
  using assms by (simp add: Run_def Let_def split: sum.splits option.splits)

theorem Run_pipeline_result_witness:
  "3 \<le> length [''testuser'', ''out.age'', ''src'']
   \<and> KeyFetcher (test_world test_files) ''testuser'' = Inr [Recipient Ed25519 ''A'']
   \<and> os_Create (test_world test_files) ''out.age'' = Inr None
   \<and> f_Stat (test_world test_files) = Inr 512
   \<and> snd (Create test_files [''src'']) = None
   \<and> Run (test_world test_files) [''testuser'', ''out.age'', ''src'']
       = Inr \<lparr>File_name = ''out.age'', Recipients = 1, Size_bytes = 512\<rparr>
   \<and> snd (Create test_files [''src'', ''missing''])
       = Some (Wrap ErrCreateArchive (Some (Foreign ''lstat: no such file or directory'')) [AString ''missing''])
   \<and> Run (test_world test_files) [''testuser'', ''out.age'', ''src'', ''missing'']
       = Inl (Wrap ErrEncrypt
               (Some (Wrap ErrCreateArchive (Some (Foreign ''lstat: no such file or directory'')) [AString ''missing''])) [])"
proof -
  let ?w = "test_world test_files"
  let ?rs = "[Recipient Ed25519 ''A'']"
  let ?ok = "[''testuser'', ''out.age'', ''src'']"
  let ?bad = "[''testuser'', ''out.age'', ''src'', ''missing'']"
  let ?perr = "Wrap ErrCreateArchive (Some (Foreign ''lstat: no such file or directory'')) [AString ''missing'']"
  have k: "KeyFetcher ?w ''testuser'' = Inr ?rs" by (simp add: test_world_def)
  have o: "os_Create ?w ''out.age'' = Inr None" by (simp add: test_world_def)
  have st: "f_Stat ?w = Inr 512" by (simp add: test_world_def)
  have fl: "files ?w = test_files" by (simp add: test_world_def)
  have c1: "Create test_files [''src''] = (Gzip [dir_entry ''src'', reg_entry ''src/a.txt'' ''aaa''] EndOfArchive, None)"
    by code_simp
  have c2: "Create test_files [''src'', ''missing'']
      = (Gzip [dir_entry ''src'', reg_entry ''src/a.txt'' ''aaa''] (BrokenHeader ErrUnexpectedEOF), Some ?perr)"
    by code_simp
  have e1: "Encrypt None \<lparr>content = Gzip [dir_entry ''src'', reg_entry ''src/a.txt'' ''aaa''] EndOfArchive,
                            read_error = None\<rparr> ?rs
      = Inr (Envelope ?rs (Gzip [dir_entry ''src'', reg_entry ''src/a.txt'' ''aaa''] EndOfArchive) True)"
    by (simp add: Encrypt_def age_Encrypt_def)
  have e2: "Encrypt None \<lparr>content = Gzip [dir_entry ''src'', reg_entry ''src/a.txt'' ''aaa''] (BrokenHeader ErrUnexpectedEOF),
                            read_error = Some ?perr\<rparr> ?rs
      = Inl (Wrap ErrEncrypt (Some ?perr) [])"
    by (simp add: Encrypt_def age_Encrypt_def)
  have r1: "Run ?w ?ok = Inr \<lparr>File_name = ''out.age'', Recipients = 1, Size_bytes = 512\<rparr>"
    using Run_pipeline_result [of ?ok ?w ?rs None 512, OF _ _ _ st, unfolded fl, OF _ _ _ _ e1] k o c1
    by simp
  have r2: "Run ?w ?bad = Inl (Wrap ErrEncrypt (Some ?perr) [])"
    using Run_pipeline_result [of ?bad ?w ?rs None 512, OF _ _ _ st, unfolded fl, OF _ _ _ _ e2] k o c2
    by simp
  from k o st c1 c2 r1 r2 show ?thesis by simp
qed

section \<open>The round trip\<close>

lemma extract_loop_frame:
  "extract_loop d es fin (fs, acc) = (fs', res) \<Longrightarrow> nodes fs q = Some n \<Longrightarrow>
   \<forall>x \<in> set es. path_key (Join d (Name (hdr x))) \<noteq> q \<Longrightarrow> nodes fs' q = Some n"
proof (induction es arbitrary: fs acc)
  case Nil then show ?case by (auto split: stream_end.splits)
next
  case (Cons e es)
  obtain fs1 err1 where s: "extract_entry fs d e = (fs1, err1)" by (cases "extract_entry fs d e")
  from Cons.prems(3) have ne: "q \<noteq> path_key (Join d (Name (hdr e)))" by auto
  from extract_entry_frame [OF s Cons.prems(2) ne] have n1: "nodes fs1 q = Some n" .
  from Cons.prems(3) have rest: "\<forall>x \<in> set es. path_key (Join d (Name (hdr x))) \<noteq> q" by simp
  from Cons.prems(1) s show ?case
    using Cons.IH [OF _ n1 rest] Cons.prems(2) n1 by (auto split: if_splits option.splits)
qed

lemma extract_loop_file:
  assumes "extract_loop d (pre @ e # post) fin (fs, acc) = (fs', Inr names)"
    and "Typeflag (hdr e) = TypeReg"
    and "\<forall>x \<in> set post. path_key (Join d (Name (hdr x))) \<noteq> path_key (Join d (Name (hdr e)))"
  shows "nodes fs' (path_key (Join d (Name (hdr e)))) = Some (File (take (Size (hdr e)) (data e)))"
proof -
  obtain fs1 r1 where p: "extract_loop d pre EndOfArchive (fs, acc) = (fs1, r1)"
    by (cases "extract_loop d pre EndOfArchive (fs, acc)")
  from assms(1) p obtain names1 where r1: "r1 = Inr names1"
    and l: "extract_loop d (e # post) fin (fs1, names1) = (fs', Inr names)"
    by (cases r1) (auto simp: extract_loop_append)
  obtain fs2 err2 where s: "extract_entry fs1 d e = (fs2, err2)" by (cases "extract_entry fs1 d e")
  with l have e2: "err2 = None"
    and rest: "extract_loop d post fin (fs2, names1 @ [Name (hdr e)]) = (fs', Inr names)"
    by (auto split: if_splits option.splits)
  from extract_entry_reg [OF s [unfolded e2] assms(2)]
  have "nodes fs2 (path_key (Join d (Name (hdr e)))) = Some (File (take (Size (hdr e)) (data e)))" by simp
  from extract_loop_frame [OF rest this assms(3)] show ?thesis .
qed

lemma list_all2_split:
  "list_all2 P (pre @ v # post) es \<Longrightarrow>
   \<exists>epre e epost. es = epre @ e # epost \<and> P v e \<and> list_all2 P post epost"
  by (auto simp: list_all2_append1 list_all2_Cons1)

lemma list_all2_mem: "list_all2 P xs ys \<Longrightarrow> x \<in> set xs \<Longrightarrow> \<exists>y \<in> set ys. P x y"
  by (induction rule: list_all2_induct) auto

lemma archived_Name: "archived src v e \<Longrightarrow> Name (hdr e) = fst v"
  by (cases v) (auto simp: archived_def split: sum.splits)

lemma archived_names: "list_all2 (archived src) vs es \<Longrightarrow> map (\<lambda>e. Name (hdr e)) es = map fst vs"
  by (induction rule: list_all2_induct) (auto dest: archived_Name)

lemma Decrypt_Encrypt:
  "Encrypt w r recipients = Inr env \<Longrightarrow> public_of i \<in> set recipients \<Longrightarrow> Decrypt env [i] = Inr (content r)"
  by (auto dest!: Encrypt_Inr simp: Decrypt_def age_Decrypt_def unwraps_def)

text \<open>
  Claim C1, as stated, fails on the code in three ways. A path that leaves the
  destination when it is joined to it (\<open>../data.txt\<close>) is archived under that name, and
  \<open>Extract\<close> rejects the entry. Of two paths that are joined to the same target
  (\<open>/abs/f.txt\<close> and \<open>abs/f.txt\<close>), the file extracted last replaces the first. And
  \<open>Extract\<close> fails when the destination holds a regular file where the archive needs a
  directory.
\<close>

theorem round_trip_reproduces_counterexample:
  "Create test_files [''../data.txt''] = (Gzip [reg_entry ''../data.txt'' ''data''] EndOfArchive, None)
   \<and> snd (round_trip test_files [''../data.txt''] [Recipient Ed25519 ''A''] [Identity Ed25519 ''A''] ''/dest'' empty_fs)
       = Inl (Wrap ErrExtract None [AString ''path traversal: ../data.txt''])
   \<and> nodes (fst (round_trip test_files [''../data.txt''] [Recipient Ed25519 ''A''] [Identity Ed25519 ''A''] ''/dest'' empty_fs))
        (path_key (Join ''/dest'' ''../data.txt'')) = None
   \<and> Open test_files ''/abs/f.txt'' = Inr \<lparr>content = ''one'', read_error = None\<rparr>
   \<and> snd (round_trip test_files [''/abs/f.txt'', ''abs/f.txt''] [Recipient Ed25519 ''A''] [Identity Ed25519 ''A''] ''/dest'' empty_fs)
       = Inr [''/abs/f.txt'', ''abs/f.txt'']
   \<and> nodes (fst (round_trip test_files [''/abs/f.txt'', ''abs/f.txt''] [Recipient Ed25519 ''A''] [Identity Ed25519 ''A''] ''/dest'' empty_fs))
        (path_key (Join ''/dest'' ''/abs/f.txt'')) = Some (File ''two'')
   \<and> nodes (fst (Extract (Gzip [reg_entry ''src'' ''x''] EndOfArchive) ''/dest'' empty_fs)) [''/'', ''dest'', ''src'']
       = Some (File ''x'')
   \<and> snd (round_trip test_files [''src''] [Recipient Ed25519 ''A''] [Identity Ed25519 ''A''] ''/dest''
            (fst (Extract (Gzip [reg_entry ''src'' ''x''] EndOfArchive) ''/dest'' empty_fs)))
       = Inl (Wrap ErrExtract (Some ENOTDIR) [])"
  by code_simp

text \<open>
  Claim C1, amended. When \<open>Create\<close> succeeds on the paths, the identity belongs to one of
  the recipients, and \<open>Extract\<close> of the archive into the destination returns without
  error, then the round trip returns this same result: decryption gives back the archive
  as \<open>Create\<close> wrote it; the names returned are the paths as walked, in order; every
  directory walked exists under the destination at the path as walked; and every regular
  file walked is there at the path as walked, with the content that was read from it,
  unless a path walked later has the same target.
\<close>

theorem round_trip_reproduces:
  assumes "Create src paths = (archive, None)"
    and "public_of i \<in> set recipients"
    and "Extract archive destDir fs = (fs', Inr names)"
  shows "Encrypt None \<lparr>content = archive, read_error = None\<rparr> recipients
           = Inr (Envelope recipients archive True)
       \<and> Decrypt (Envelope recipients archive True) [i] = Inr archive
       \<and> round_trip src paths recipients [i] destDir fs = (fs', Inr names)
       \<and> names = map fst (concat (map (Walk src) paths))
       \<and> (\<forall>path info. (path, Inr info) \<in> set (concat (map (Walk src) paths)) \<and> fi_Mode info = ModeDir
             \<longrightarrow> is_dir fs' (path_key (Join destDir path)))
       \<and> (\<forall>pre path info post.
             concat (map (Walk src) paths) = pre @ (path, Inr info) # post \<and> fi_Mode info = ModeRegular
             \<and> (\<forall>v \<in> set post. path_key (Join destDir (fst v)) \<noteq> path_key (Join destDir path))
             \<longrightarrow> (\<exists>bytes. Open src path = Inr \<lparr>content = bytes, read_error = None\<rparr>
                    \<and> nodes fs' (path_key (Join destDir path)) = Some (File bytes)))"
proof -
  let ?vs = "concat (map (Walk src) paths)"
  from Create_ok [OF assms(1)] obtain es where ar: "archive = Gzip es EndOfArchive"
    and rel: "list_all2 (archived src) ?vs es" by blast
  from assms(3) ar have l: "extract_loop destDir es EndOfArchive (fs, []) = (fs', Inr names)"
    by (simp add: Extract_def)
  have enc: "Encrypt None \<lparr>content = archive, read_error = None\<rparr> recipients
             = Inr (Envelope recipients archive True)"
    using assms(2) by (auto simp: Encrypt_def age_Encrypt_def)
  from Decrypt_Encrypt [OF enc assms(2)]
  have dec: "Decrypt (Envelope recipients archive True) [i] = Inr archive" by simp
  have rt: "round_trip src paths recipients [i] destDir fs = (fs', Inr names)"
    using assms(1,3) enc dec by (simp add: round_trip_def)
  from extract_loop_success [OF l] archived_names [OF rel]
  have names: "names = map fst ?vs" by simp
  have dirs: "is_dir fs' (path_key (Join destDir path))"
    if "(path, Inr info) \<in> set ?vs" and "fi_Mode info = ModeDir" for path info
  proof -
    from list_all2_mem [OF rel that(1)] obtain e where e: "e \<in> set es"
      and a: "archived src (path, Inr info) e" by blast
    from a that(2) have "Typeflag (hdr e) = TypeDir" and "Name (hdr e) = path"
      by (simp_all add: archived_def)
    with extract_loop_materialises [OF l e] show ?thesis by (simp add: materialised_def)
  qed
  have regs: "\<exists>bytes. Open src path = Inr \<lparr>content = bytes, read_error = None\<rparr>
                    \<and> nodes fs' (path_key (Join destDir path)) = Some (File bytes)"
    if v: "?vs = pre @ (path, Inr info) # post" and m: "fi_Mode info = ModeRegular"
      and d: "\<forall>v \<in> set post. path_key (Join destDir (fst v)) \<noteq> path_key (Join destDir path)"
    for pre path info post
  proof -
    from rel have "list_all2 (archived src) (pre @ (path, Inr info) # post) es" by (simp only: v)
    from list_all2_split [OF this] obtain epre e epost where es: "es = epre @ e # epost"
      and a: "archived src (path, Inr info) e" and post: "list_all2 (archived src) post epost"
      by blast
    from a m have t: "Typeflag (hdr e) = TypeReg" and n: "Name (hdr e) = path"
      and o: "Open src path = Inr \<lparr>content = data e, read_error = None\<rparr>"
      and bl: "length (data e) = body_len (hdr e)"
      by (simp_all add: archived_def)
    from bl t have sz: "length (data e) = Size (hdr e)"
      by (simp add: body_len_def isHeaderOnlyType_def)
    from archived_names [OF post] have "set (map (\<lambda>e. Name (hdr e)) epost) = set (map fst post)"
      by simp
    then have img: "(\<lambda>e. Name (hdr e)) ` set epost = fst ` set post" by simp
    have d': "\<forall>x \<in> set epost. path_key (Join destDir (Name (hdr x))) \<noteq> path_key (Join destDir (Name (hdr e)))"
    proof
      fix x assume "x \<in> set epost"
      then have "Name (hdr x) \<in> (\<lambda>e. Name (hdr e)) ` set epost" by (rule imageI)
      then have "Name (hdr x) \<in> fst ` set post" by (simp only: img)
      then obtain u where "u \<in> set post" and "Name (hdr x) = fst u" by (rule imageE)
      with d n show "path_key (Join destDir (Name (hdr x))) \<noteq> path_key (Join destDir (Name (hdr e)))"
        by simp
    qed
    from l have "extract_loop destDir (epre @ e # epost) EndOfArchive (fs, []) = (fs', Inr names)"
      by (simp only: es)
    from extract_loop_file [OF this t d']
    have "nodes fs' (path_key (Join destDir path)) = Some (File (data e))"
      using n sz by simp
    with o show ?thesis by blast
  qed
  show ?thesis
  proof (intro conjI allI impI)
    show "Encrypt None \<lparr>content = archive, read_error = None\<rparr> recipients
           = Inr (Envelope recipients archive True)" by (rule enc)
    show "Decrypt (Envelope recipients archive True) [i] = Inr archive" by (rule dec)
    show "round_trip src paths recipients [i] destDir fs = (fs', Inr names)" by (rule rt)
    show "names = map fst ?vs" by (rule names)
  next
    fix path info
    assume "(path, Inr info) \<in> set ?vs \<and> fi_Mode info = ModeDir"
    then show "is_dir fs' (path_key (Join destDir path))" using dirs by blast
  next
    fix pre path info post
    assume "?vs = pre @ (path, Inr info) # post \<and> fi_Mode info = ModeRegular
             \<and> (\<forall>v \<in> set post. path_key (Join destDir (fst v)) \<noteq> path_key (Join destDir path))"
    then have 1: "?vs = pre @ (path, Inr info) # post" and 2: "fi_Mode info = ModeRegular"
      and 3: "\<forall>v \<in> set post. path_key (Join destDir (fst v)) \<noteq> path_key (Join destDir path)"
      by simp_all
    from regs [OF 1 2 3]
    show "\<exists>bytes. Open src path = Inr \<lparr>content = bytes, read_error = None\<rparr>
                    \<and> nodes fs' (path_key (Join destDir path)) = Some (File bytes)" .
  qed
qed

theorem round_trip_reproduces_witness:
  "Create test_files [''src''] = (Gzip [dir_entry ''src'', reg_entry ''src/a.txt'' ''aaa''] EndOfArchive, None)
   \<and> public_of (Identity Ed25519 ''A'') \<in> set [Recipient Ed25519 ''A'']
   \<and> snd (Extract (Gzip [dir_entry ''src'', reg_entry ''src/a.txt'' ''aaa''] EndOfArchive) ''/dest'' empty_fs)
       = Inr [''src'', ''src/a.txt'']
   \<and> snd (round_trip test_files [''src''] [Recipient Ed25519 ''A''] [Identity Ed25519 ''A''] ''/dest'' empty_fs)
       = Inr [''src'', ''src/a.txt'']
   \<and> path_key (Join ''/dest'' ''src'') = [''/'', ''dest'', ''src'']
   \<and> is_dir (fst (round_trip test_files [''src''] [Recipient Ed25519 ''A''] [Identity Ed25519 ''A''] ''/dest'' empty_fs))
        [''/'', ''dest'', ''src'']
   \<and> Open test_files ''src/a.txt'' = Inr \<lparr>content = ''aaa'', read_error = None\<rparr>
   \<and> path_key (Join ''/dest'' ''src/a.txt'') = [''/'', ''dest'', ''src'', ''a.txt'']
   \<and> nodes (fst (round_trip test_files [''src''] [Recipient Ed25519 ''A''] [Identity Ed25519 ''A''] ''/dest'' empty_fs))
        [''/'', ''dest'', ''src'', ''a.txt''] = Some (File ''aaa'')"
proof -
  let ?ar = "Gzip [dir_entry ''src'', reg_entry ''src/a.txt'' ''aaa''] EndOfArchive"
  let ?X = "Extract ?ar ''/dest'' empty_fs"
  let ?R = "round_trip test_files [''src''] [Recipient Ed25519 ''A''] [Identity Ed25519 ''A''] ''/dest'' empty_fs"
  let ?d = "\<lparr>fi_Name = ''src'', fi_Mode = ModeDir, fi_Perm = 493, fi_Size = 0\<rparr>"
  let ?f = "\<lparr>fi_Name = ''a.txt'', fi_Mode = ModeRegular, fi_Perm = 420, fi_Size = 3\<rparr>"
  have c: "Create test_files [''src''] = (?ar, None)" by code_simp
  have p: "public_of (Identity Ed25519 ''A'') \<in> set [Recipient Ed25519 ''A'']" by simp
  have x: "snd ?X = Inr [''src'', ''src/a.txt'']" by code_simp
  then have xx: "?X = (fst ?X, Inr [''src'', ''src/a.txt''])" by (simp add: prod_eq_iff)
  have vs: "concat (map (Walk test_files) [''src'']) = [] @ (''src'', Inr ?d) # [(''src/a.txt'', Inr ?f)]"
    by (simp add: test_files_def)
  have vs2: "concat (map (Walk test_files) [''src'']) = [(''src'', Inr ?d)] @ (''src/a.txt'', Inr ?f) # []"
    by (simp add: test_files_def)
  have k1: "path_key (Join ''/dest'' ''src'') = [''/'', ''dest'', ''src'']" by code_simp
  have k2: "path_key (Join ''/dest'' ''src/a.txt'') = [''/'', ''dest'', ''src'', ''a.txt'']" by code_simp
  have o: "Open test_files ''src/a.txt'' = Inr \<lparr>content = ''aaa'', read_error = None\<rparr>"
    by (simp add: test_files_def)
  note t = round_trip_reproduces [OF c p xx]
  from t have r: "?R = (fst ?X, Inr [''src'', ''src/a.txt''])" by blast
  note dirs = t [THEN conjunct2, THEN conjunct2, THEN conjunct2, THEN conjunct2, THEN conjunct1, rule_format]
  note regs = t [THEN conjunct2, THEN conjunct2, THEN conjunct2, THEN conjunct2, THEN conjunct2, rule_format]
  have "is_dir (fst ?X) (path_key (Join ''/dest'' ''src''))"
    by (rule dirs [of "''src''" ?d]) (simp add: test_files_def)
  then have d: "is_dir (fst ?X) [''/'', ''dest'', ''src'']" unfolding k1 by simp
  have "\<exists>bytes. Open test_files ''src/a.txt'' = Inr \<lparr>content = bytes, read_error = None\<rparr>
             \<and> nodes (fst ?X) (path_key (Join ''/dest'' ''src/a.txt'')) = Some (File bytes)"
    by (rule regs [of "[(''src'', Inr ?d)]" "''src/a.txt''" ?f "[]"]) (simp add: test_files_def)
  with o have n: "nodes (fst ?X) [''/'', ''dest'', ''src'', ''a.txt''] = Some (File ''aaa'')"
    unfolding k2 by simp
  from c p x r d o n k1 k2 show ?thesis by simp
qed
end
